theory Spec2Isabelle
  imports Main "HOL-Library.Word"
begin

section \<open>The data of PhxSocket.cpp\<close>

text \<open>
  \<^verbatim>\<open>int64_t\<close>: a 64-bit word, read as a signed number with \<open>sint\<close>. \<open>+\<close> wraps
  around, which is what the usual targets do with \<^verbatim>\<open>this->ref++\<close> at INT64_MAX (the
  C++ standard leaves that overflow undefined).
\<close>

type_synonym int64 = "64 word"

text \<open>
  A parsed \<^verbatim>\<open>nlohmann::json\<close> value. An object is a key-value table; the association
  list is read through \<open>map_of\<close>. The numbers are the signed 64-bit integers; floating
  point numbers and unsigned integers beyond that range are not modelled.
\<close>

datatype json =
    JNull
  | JBool bool
  | JInt int64
  | JString string
  | JArray "json list"
  | JObject "(string \<times> json) list"

text \<open>
  What stops a call: the dereference of a null \<^verbatim>\<open>socket\<close> pointer, and the two
  exceptions of the JSON library (\<^verbatim>\<open>parse_error\<close>, \<^verbatim>\<open>type_error\<close>).
\<close>

datatype error = NullSocket | ParseError | TypeError

text \<open>
  A channel is used through a shared pointer: \<open>chan_addr\<close> is the identity of the
  object, \<open>getTopic\<close> what its \<^verbatim>\<open>getTopic()\<close> returns.
\<close>

datatype PhxChannel = PhxChannel (chan_addr: nat) (getTopic: string)

text \<open>
  The transport object behind \<^verbatim>\<open>this->socket\<close>: the one handed to the constructor, or
  the \<^verbatim>\<open>EasySocket\<close> that \<^verbatim>\<open>connect\<close> makes for a URL.
\<close>

datatype WebSocket = Injected | EasySocket string

datatype ws_call = SetURL string | Open | Close | SetDelegate_nullptr | Send_dump json

text \<open>
  Calls that leave the controller, in the order they are made: on the transport, on a
  channel, on a registered callback (named by a number; callbacks are opaque to this
  file and are taken not to call back into the controller), on the delegate.
\<close>

datatype event =
    Ws WebSocket ws_call
  | Chan_triggerEvent PhxChannel string json int64
  | Cb_open nat
  | Cb_close nat string
  | Cb_error nat string
  | Cb_message nat json
  | Del_didOpen nat
  | Del_didClose nat string
  | Del_didReceiveError nat string

text \<open>The closures handed to \<^verbatim>\<open>this->pool.enqueue\<close>, one constructor per lambda.\<close>

datatype task =
    SetCanReconnect bool
  | SetCanSendHeartBeat bool
  | SendHeartbeat
  | OnConnOpen
  | OnConnMessage "json option"
  | OnConnError string
  | OnConnClose string
  | ReconnectTask

text \<open>
  The detached threads, by where they stand: the heartbeat thread before its first
  statement (\<open>HbInit\<close>), the heartbeat thread asleep in its loop (\<open>HbSleep\<close>), the
  reconnect thread asleep (\<open>RcSleep\<close>), a thread that has returned (\<open>Done\<close>).
\<close>

datatype thread = HbInit | HbSleep | RcSleep | Done

text \<open>
  The fields of the class, then the pool's queue (\<^verbatim>\<open>POOL_SIZE\<close> is 1: one worker takes
  the tasks in the order they were submitted), the detached threads and the calls made
  so far. A \<^verbatim>\<open>std::function\<close> in a callback list is a number; \<open>delegate\<close> is what
  \<^verbatim>\<open>this->delegate.lock()\<close> gives.
\<close>

record phx_socket =
  url :: string
  heartBeatInterval :: int
  reconnectOnError :: bool
  socket :: "WebSocket option"
  params :: "(string \<times> string) list"
  ref :: int64
  canSendHeartbeat :: bool
  canReconnect :: bool
  reconnecting :: bool
  channels :: "PhxChannel list"
  openCallbacks :: "nat list"
  closeCallbacks :: "nat list"
  errorCallbacks :: "nat list"
  messageCallbacks :: "nat list"
  delegate :: "nat option"
  pool :: "task list"
  threads :: "thread list"
  trace :: "event list"

section \<open>Construction\<close>

text \<open>
  Modelled from the spec: the initial values of the members that the constructors do not
  assign (PhxSocket.h, which declares them, is not among the sources). The spec starts the
  reference counter at 0 and names Disconnected as the initial state, read here as: no
  transport, the three flags false, nothing registered.
\<close>

definition PhxSocket_members :: phx_socket where
  "PhxSocket_members =
     \<lparr> url = [], heartBeatInterval = 0, reconnectOnError = False, socket = None,
       params = [], ref = 0, canSendHeartbeat = False, canReconnect = False,
       reconnecting = False, channels = [], openCallbacks = [], closeCallbacks = [],
       errorCallbacks = [], messageCallbacks = [], delegate = None,
       pool = [], threads = [], trace = [] \<rparr>"

definition PhxSocket :: "string \<Rightarrow> int \<Rightarrow> phx_socket" where
  "PhxSocket u interval =
     PhxSocket_members \<lparr> url := u, heartBeatInterval := interval, reconnectOnError := True \<rparr>"

definition PhxSocket_url :: "string \<Rightarrow> phx_socket" where
  "PhxSocket_url u = PhxSocket u 1"

definition PhxSocket_injected :: "string \<Rightarrow> int \<Rightarrow> phx_socket" where
  "PhxSocket_injected u interval =
     PhxSocket_members \<lparr> url := u, heartBeatInterval := interval, reconnectOnError := True,
       socket := Some Injected \<rparr>"

section \<open>The operations\<close>

definition enqueue :: "task \<Rightarrow> phx_socket \<Rightarrow> phx_socket" where
  "enqueue t s = s \<lparr> pool := pool s @ [t] \<rparr>"

definition emit :: "event list \<Rightarrow> phx_socket \<Rightarrow> phx_socket" where
  "emit es s = s \<lparr> trace := trace s @ es \<rparr>"

definition setCanReconnect :: "bool \<Rightarrow> phx_socket \<Rightarrow> phx_socket" where
  "setCanReconnect b s = enqueue (SetCanReconnect b) s"

definition setCanSendHeartBeat :: "bool \<Rightarrow> phx_socket \<Rightarrow> phx_socket" where
  "setCanSendHeartBeat b s = enqueue (SetCanSendHeartBeat b) s"

definition discardHeartBeatTimer :: "phx_socket \<Rightarrow> phx_socket" where
  "discardHeartBeatTimer s = setCanSendHeartBeat False s"

definition discardReconnectTimer :: "phx_socket \<Rightarrow> phx_socket" where
  "discardReconnectTimer s = setCanReconnect False s"

definition disconnectSocket :: "phx_socket \<Rightarrow> phx_socket" where
  "disconnectSocket s =
     (case socket s of
        None \<Rightarrow> s
      | Some sk \<Rightarrow> (emit [Ws sk SetDelegate_nullptr, Ws sk Close] s) \<lparr> socket := None \<rparr>)"

text \<open>
  \<^verbatim>\<open>connect(params)\<close>. Both branches of the test on \<^verbatim>\<open>params.size()\<close> assign
  \<^verbatim>\<open>this->url\<close> to the local (the FIXME of the source).
\<close>

definition connect :: "(string \<times> string) list \<Rightarrow> phx_socket \<Rightarrow> phx_socket" where
  "connect p s =
     (let s1 = s \<lparr> params := p \<rparr>;
          u = (if length (params s1) > 0 then url s1 else url s1);
          s2 = setCanReconnect False s1;
          sk = (case socket s2 of None \<Rightarrow> EasySocket u | Some k \<Rightarrow> k)
      in emit [Ws sk (SetURL u), Ws sk Open] (s2 \<lparr> socket := Some sk \<rparr>))"

definition connect0 :: "phx_socket \<Rightarrow> phx_socket" where
  "connect0 s = connect [] s"

definition disconnect :: "phx_socket \<Rightarrow> phx_socket" where
  "disconnect s = disconnectSocket (discardReconnectTimer (discardHeartBeatTimer s))"

definition reconnect :: "phx_socket \<Rightarrow> phx_socket" where
  "reconnect s = connect (params s) (disconnectSocket s)"

definition onOpen :: "nat \<Rightarrow> phx_socket \<Rightarrow> phx_socket" where
  "onOpen cb s = s \<lparr> openCallbacks := openCallbacks s @ [cb] \<rparr>"

definition onClose :: "nat \<Rightarrow> phx_socket \<Rightarrow> phx_socket" where
  "onClose cb s = s \<lparr> closeCallbacks := closeCallbacks s @ [cb] \<rparr>"

definition onError :: "nat \<Rightarrow> phx_socket \<Rightarrow> phx_socket" where
  "onError cb s = s \<lparr> errorCallbacks := errorCallbacks s @ [cb] \<rparr>"

definition onMessage :: "nat \<Rightarrow> phx_socket \<Rightarrow> phx_socket" where
  "onMessage cb s = s \<lparr> messageCallbacks := messageCallbacks s @ [cb] \<rparr>"

definition makeRef :: "phx_socket \<Rightarrow> int64 \<times> phx_socket" where
  "makeRef s = (ref s, s \<lparr> ref := ref s + 1 \<rparr>)"

definition push :: "json \<Rightarrow> phx_socket \<Rightarrow> error + phx_socket" where
  "push data s =
     (case socket s of
        None \<Rightarrow> Inl NullSocket
      | Some sk \<Rightarrow> Inr (emit [Ws sk (Send_dump data)] s))"

text \<open>
  Modelled from the spec: the value that the JSON library's initializer list gives the
  empty braces of \<^verbatim>\<open>{ "payload", {} }\<close> (the library is not among the sources). The spec
  gives the heartbeat the payload \<^verbatim>\<open>{}\<close>, the empty object.
\<close>

definition empty_braces :: json where
  "empty_braces = JObject []"

definition heartbeat :: "int64 \<Rightarrow> json" where
  "heartbeat r =
     JObject [(''topic'', JString ''phoenix''), (''event'', JString ''heartbeat''),
              (''payload'', empty_braces), (''ref'', JInt r)]"

definition sendHeartbeat :: "phx_socket \<Rightarrow> error + phx_socket" where
  "sendHeartbeat s = (case makeRef s of (r, s1) \<Rightarrow> push (heartbeat r) s1)"

definition addChannel :: "PhxChannel \<Rightarrow> phx_socket \<Rightarrow> phx_socket" where
  "addChannel channel s = s \<lparr> channels := channels s @ [channel] \<rparr>"

text \<open>
  \<^verbatim>\<open>removeChannel\<close> copies the vector into the local \<^verbatim>\<open>chans\<close>, erases the first
  occurrence there, and returns: the local is dropped and no member is assigned.
\<close>

definition removeChannel :: "PhxChannel \<Rightarrow> phx_socket \<Rightarrow> phx_socket" where
  "removeChannel channel s =
     (let chans = channels s;
          chans' = (if channel \<in> set chans then remove1 channel chans else chans)
      in s)"

definition setDelegate :: "nat option \<Rightarrow> phx_socket \<Rightarrow> phx_socket" where
  "setDelegate d s = s \<lparr> delegate := d \<rparr>"

definition triggerChanError :: "string \<Rightarrow> phx_socket \<Rightarrow> phx_socket" where
  "triggerChanError err s =
     emit (map (\<lambda>channel. Chan_triggerEvent channel ''phx_error'' (JString err) 0) (channels s)) s"

definition notify :: "(nat \<Rightarrow> event) \<Rightarrow> phx_socket \<Rightarrow> phx_socket" where
  "notify f s = (case delegate s of None \<Rightarrow> s | Some d \<Rightarrow> emit [f d] s)"

definition onConnOpen :: "phx_socket \<Rightarrow> phx_socket" where
  "onConnOpen s =
     (let s1 = discardReconnectTimer s;
          s2 = (if heartBeatInterval s1 > 0 then s1 \<lparr> threads := threads s1 @ [HbInit] \<rparr> else s1);
          s3 = emit (map Cb_open (openCallbacks s2)) s2
      in notify Del_didOpen s3)"

definition onConnClose :: "string \<Rightarrow> phx_socket \<Rightarrow> phx_socket" where
  "onConnClose ev s =
     (let s1 = triggerChanError ev s;
          s2 = (if reconnectOnError s1 then
                  (if \<not> reconnecting s1 then
                     s1 \<lparr> reconnecting := True, canReconnect := True,
                          threads := threads s1 @ [RcSleep] \<rparr>
                   else s1)
                else s1);
          s3 = discardHeartBeatTimer s2;
          s4 = emit (map (\<lambda>cb. Cb_close cb ev) (closeCallbacks s3)) s3
      in notify (\<lambda>d. Del_didClose d ev) s4)"

definition onConnError :: "string \<Rightarrow> phx_socket \<Rightarrow> phx_socket" where
  "onConnError err s =
     (let s1 = discardHeartBeatTimer s;
          s2 = emit (map (\<lambda>cb. Cb_error cb err) (errorCallbacks s1)) s1;
          s3 = notify (\<lambda>d. Del_didReceiveError d err) s2
      in onConnClose err s3)"

text \<open>
  \<^verbatim>\<open>json[key]\<close> on a non-const value: a null value becomes an object first, a missing key
  is inserted with the value null, anything that is not an object throws. The result is
  the value found and the (possibly grown) object.
\<close>

fun json_index :: "string \<Rightarrow> json \<Rightarrow> error + (json \<times> json)" where
  "json_index k JNull = Inr (JNull, JObject [(k, JNull)])"
| "json_index k (JObject kvs) =
     (case map_of kvs k of
        Some v \<Rightarrow> Inr (v, JObject kvs)
      | None \<Rightarrow> Inr (JNull, JObject (kvs @ [(k, JNull)])))"
| "json_index k _ = Inl TypeError"

fun as_string :: "json \<Rightarrow> error + string" where
  "as_string (JString x) = Inr x"
| "as_string _ = Inl TypeError"

fun as_int64 :: "json \<Rightarrow> error + int64" where
  "as_int64 (JInt n) = Inr n"
| "as_int64 _ = Inl TypeError"

text \<open>
  The local \<^verbatim>\<open>ref\<close>: \<^verbatim>\<open>-1\<close>, overwritten by the converted value when the wire value
  is not null.
\<close>

definition ref_arg :: "json \<Rightarrow> error + int64" where
  "ref_arg json_ref = (if json_ref \<noteq> JNull then as_int64 json_ref else Inr (- 1))"

definition deliver :: "string \<Rightarrow> string \<Rightarrow> json \<Rightarrow> int64 \<Rightarrow> json \<Rightarrow> phx_socket \<Rightarrow> phx_socket" where
  "deliver json_topic json_event json_payload r js s =
     (let s1 = emit (map (\<lambda>channel. Chan_triggerEvent channel json_event json_payload r)
                      (filter (\<lambda>channel. getTopic channel = json_topic) (channels s))) s
      in emit (map (\<lambda>cb. Cb_message cb js) (messageCallbacks s1)) s1)"

text \<open>
  \<^verbatim>\<open>onConnMessage\<close>. The argument is what \<^verbatim>\<open>nlohmann::json::parse(rawMessage)\<close> returns,
  \<open>None\<close> when it throws. The four reads and the two conversions to
  \<^verbatim>\<open>std::string\<close> come first, then the conversion of a non-null ref, then the two loops.
\<close>

definition onConnMessage :: "json option \<Rightarrow> phx_socket \<Rightarrow> error + phx_socket" where
  "onConnMessage parsed s =
     (case parsed of
        None \<Rightarrow> Inl ParseError
      | Some j0 \<Rightarrow>
     (case json_index ''topic'' j0 of
        Inl e \<Rightarrow> Inl e
      | Inr (jt, j1) \<Rightarrow>
     (case as_string jt of
        Inl e \<Rightarrow> Inl e
      | Inr json_topic \<Rightarrow>
     (case json_index ''event'' j1 of
        Inl e \<Rightarrow> Inl e
      | Inr (je, j2) \<Rightarrow>
     (case as_string je of
        Inl e \<Rightarrow> Inl e
      | Inr json_event \<Rightarrow>
     (case json_index ''ref'' j2 of
        Inl e \<Rightarrow> Inl e
      | Inr (json_ref, j3) \<Rightarrow>
     (case json_index ''payload'' j3 of
        Inl e \<Rightarrow> Inl e
      | Inr (json_payload, j4) \<Rightarrow>
     (case ref_arg json_ref of
        Inl e \<Rightarrow> Inl e
      | Inr r \<Rightarrow> Inr (deliver json_topic json_event json_payload r j4 s)))))))))"

section \<open>The worker, the detached threads and the callers\<close>

text \<open>What the single worker does with the task at the head of the queue.\<close>

definition run_task :: "task \<Rightarrow> phx_socket \<Rightarrow> error + phx_socket" where
  "run_task t s =
     (case t of
        SetCanReconnect b \<Rightarrow> Inr (s \<lparr> canReconnect := b \<rparr>)
      | SetCanSendHeartBeat b \<Rightarrow> Inr (s \<lparr> canSendHeartbeat := b \<rparr>)
      | SendHeartbeat \<Rightarrow> sendHeartbeat s
      | OnConnOpen \<Rightarrow> Inr (onConnOpen s)
      | OnConnMessage m \<Rightarrow> onConnMessage m s
      | OnConnError e \<Rightarrow> Inr (onConnError e s)
      | OnConnClose r \<Rightarrow> Inr (onConnClose r s)
      | ReconnectTask \<Rightarrow>
          Inr ((if canReconnect s then reconnect (s \<lparr> canReconnect := False \<rparr>) else s)
                 \<lparr> reconnecting := False \<rparr>))"

text \<open>
  One move of a detached thread. The heartbeat thread first submits "set
  canSendHeartbeat to true"; after each sleep it reads the flag and either submits a
  heartbeat or leaves the loop. The reconnect thread submits its task after its sleep.
\<close>

definition thread_step :: "nat \<Rightarrow> phx_socket \<Rightarrow> phx_socket" where
  "thread_step i s =
     (if i < length (threads s) then
        (case threads s ! i of
           HbInit \<Rightarrow> (setCanSendHeartBeat True s) \<lparr> threads := (threads s)[i := HbSleep] \<rparr>
         | HbSleep \<Rightarrow>
             (if canSendHeartbeat s then enqueue SendHeartbeat s
              else s \<lparr> threads := (threads s)[i := Done] \<rparr>)
         | RcSleep \<Rightarrow> (enqueue ReconnectTask s) \<lparr> threads := (threads s)[i := Done] \<rparr>
         | Done \<Rightarrow> s)
      else s)"

text \<open>
  What can happen next: a call of the public interface, a report of the transport (which
  only submits a task), the worker taking the next task, a detached thread moving.
\<close>

datatype action =
    Call_connect "(string \<times> string) list"
  | Call_disconnect
  | Call_reconnect
  | Call_push json
  | Call_makeRef
  | Call_addChannel PhxChannel
  | Call_removeChannel PhxChannel
  | Call_onOpen nat
  | Call_onClose nat
  | Call_onError nat
  | Call_onMessage nat
  | Call_setDelegate "nat option"
  | WebSocketDidOpen
  | WebSocketDidReceive "json option"
  | WebSocketDidError string
  | WebSocketDidClose int string bool
  | Worker
  | Thread nat

definition step :: "action \<Rightarrow> phx_socket \<Rightarrow> error + phx_socket" where
  "step a s =
     (case a of
        Call_connect p \<Rightarrow> Inr (connect p s)
      | Call_disconnect \<Rightarrow> Inr (disconnect s)
      | Call_reconnect \<Rightarrow> Inr (reconnect s)
      | Call_push data \<Rightarrow> push data s
      | Call_makeRef \<Rightarrow> Inr (snd (makeRef s))
      | Call_addChannel c \<Rightarrow> Inr (addChannel c s)
      | Call_removeChannel c \<Rightarrow> Inr (removeChannel c s)
      | Call_onOpen cb \<Rightarrow> Inr (onOpen cb s)
      | Call_onClose cb \<Rightarrow> Inr (onClose cb s)
      | Call_onError cb \<Rightarrow> Inr (onError cb s)
      | Call_onMessage cb \<Rightarrow> Inr (onMessage cb s)
      | Call_setDelegate d \<Rightarrow> Inr (setDelegate d s)
      | WebSocketDidOpen \<Rightarrow> Inr (enqueue OnConnOpen s)
      | WebSocketDidReceive m \<Rightarrow> Inr (enqueue (OnConnMessage m) s)
      | WebSocketDidError e \<Rightarrow> Inr (enqueue (OnConnError e) s)
      | WebSocketDidClose code reason wasClean \<Rightarrow> Inr (enqueue (OnConnClose reason) s)
      | Worker \<Rightarrow> (case pool s of [] \<Rightarrow> Inr s | t # ts \<Rightarrow> run_task t (s \<lparr> pool := ts \<rparr>))
      | Thread i \<Rightarrow> Inr (thread_step i s))"

text \<open>A run ends at the first step that fails.\<close>

fun run :: "action list \<Rightarrow> phx_socket \<Rightarrow> error + phx_socket" where
  "run [] s = Inr s"
| "run (a # as) s = (case step a s of Inl e \<Rightarrow> Inl e | Inr s' \<Rightarrow> run as s')"

section \<open>Reading a run\<close>

text \<open>The calls of \<^verbatim>\<open>triggerEvent\<close> among the calls made.\<close>

fun is_chan_call :: "event \<Rightarrow> bool" where
  "is_chan_call (Chan_triggerEvent c e p n) = True"
| "is_chan_call _ = False"

definition chan_calls :: "phx_socket \<Rightarrow> event list" where
  "chan_calls s = filter is_chan_call (trace s)"

text \<open>
  The number of reconnect attempts under way: the reconnect threads still asleep and the
  reconnect tasks waiting in the queue.
\<close>

definition attempts :: "phx_socket \<Rightarrow> nat" where
  "attempts s = count_list (threads s) RcSleep + count_list (pool s) ReconnectTask"

text \<open>
  The values that the calls of \<^verbatim>\<open>makeRef\<close> return in the course of a run, in order. It
  is called by \<open>Call_makeRef\<close> and by the worker when the task it takes is
  \<open>SendHeartbeat\<close>.
\<close>

definition calls_makeRef :: "action \<Rightarrow> phx_socket \<Rightarrow> bool" where
  "calls_makeRef a s =
     (case a of
        Call_makeRef \<Rightarrow> True
      | Worker \<Rightarrow> (case pool s of SendHeartbeat # ts \<Rightarrow> True | _ \<Rightarrow> False)
      | _ \<Rightarrow> False)"

fun minted :: "action list \<Rightarrow> phx_socket \<Rightarrow> int64 list" where
  "minted [] s = []"
| "minted (a # as) s =
     (if calls_makeRef a s then [fst (makeRef s)] else [])
     @ (case step a s of Inl e \<Rightarrow> [] | Inr s' \<Rightarrow> minted as s')"

text \<open>
  The objects that the heartbeat tasks of a run send: for each move of the worker that
  takes a \<open>SendHeartbeat\<close> task, what \<^verbatim>\<open>send\<close> was called with during that move.
  \<open>ref_field\<close> reads the ref of such an object.
\<close>

fun ref_field :: "json \<Rightarrow> json option" where
  "ref_field (JObject kvs) = map_of kvs ''ref''"
| "ref_field _ = None"

fun sent :: "event \<Rightarrow> json list" where
  "sent (Ws sk (Send_dump j)) = [j]"
| "sent _ = []"

definition sends_heartbeat :: "action \<Rightarrow> phx_socket \<Rightarrow> bool" where
  "sends_heartbeat a s =
     (case a of
        Worker \<Rightarrow> (case pool s of SendHeartbeat # ts \<Rightarrow> True | _ \<Rightarrow> False)
      | _ \<Rightarrow> False)"

fun beats :: "action list \<Rightarrow> phx_socket \<Rightarrow> json list" where
  "beats [] s = []"
| "beats (a # as) s =
     (case step a s of
        Inl e \<Rightarrow> []
      | Inr s' \<Rightarrow>
          (if sends_heartbeat a s then concat (map sent (drop (length (trace s)) (trace s'))) else [])
          @ beats as s')"

text \<open>
  A controller at rest after \<^verbatim>\<open>disconnect()\<close>: both flags false, no heartbeat thread
  still before its first statement, and in the queue nothing but flag resets and
  reconnect tasks.
\<close>

fun resets :: "task \<Rightarrow> bool" where
  "resets (SetCanReconnect b) = (\<not> b)"
| "resets (SetCanSendHeartBeat b) = (\<not> b)"
| "resets ReconnectTask = True"
| "resets _ = False"

definition at_rest :: "phx_socket \<Rightarrow> bool" where
  "at_rest s =
     (\<not> canSendHeartbeat s \<and> \<not> canReconnect s \<and> HbInit \<notin> set (threads s)
      \<and> list_all resets (pool s))"

fun timer_or_worker :: "action \<Rightarrow> bool" where
  "timer_or_worker Worker = True"
| "timer_or_worker (Thread i) = True"
| "timer_or_worker _ = False"

text \<open>
  A controller as a constructor leaves it (the one-argument constructor delegates to the
  two-argument one).
\<close>

definition fresh :: "phx_socket \<Rightarrow> bool" where
  "fresh s =
     (s = PhxSocket (url s) (heartBeatInterval s)
      \<or> s = PhxSocket_injected (url s) (heartBeatInterval s))"

section \<open>Theorems\<close>

lemmas call_defs =
  enqueue_def emit_def setCanReconnect_def setCanSendHeartBeat_def discardHeartBeatTimer_def
  discardReconnectTimer_def disconnectSocket_def connect_def disconnect_def reconnect_def
  makeRef_def push_def sendHeartbeat_def heartbeat_def empty_braces_def notify_def
  triggerChanError_def onConnOpen_def onConnClose_def onConnError_def addChannel_def
  removeChannel_def setDelegate_def onOpen_def onClose_def onError_def onMessage_def

lemmas machine_defs = run_task_def thread_step_def step_def

lemmas ctor_defs = PhxSocket_def PhxSocket_members_def

text \<open>
  Claim C9. \<^verbatim>\<open>removeChannel(c)\<close> returns the controller as it found it, whatever the
  registry holds: the erase works on a copy. So a channel that was added is still
  registered after \<^verbatim>\<open>removeChannel\<close>, still gets the \<^verbatim>\<open>phx_error\<close> of a close, and still
  gets the envelopes routed to its topic.
\<close>

theorem removeChannel_keeps_registry:
  "removeChannel c s = s
   \<and> channels (removeChannel c (addChannel c s)) = channels s @ [c]
   \<and> Chan_triggerEvent c ''phx_error'' (JString r) 0
       \<in> set (trace (onConnClose r (removeChannel c (addChannel c s))))
   \<and> Chan_triggerEvent c e p n
       \<in> set (trace (deliver (getTopic c) e p n j (removeChannel c (addChannel c s))))"
  by (simp add: call_defs deliver_def Let_def split: option.split)

theorem removeChannel_keeps_registry_witness:
  "channels (removeChannel (PhxChannel 1 ''room:1'')
      (addChannel (PhxChannel 1 ''room:1'') (PhxSocket ''ws://h'' 1))) = [PhxChannel 1 ''room:1'']
   \<and> Chan_triggerEvent (PhxChannel 1 ''room:1'') ''phx_error'' (JString ''ECONNRESET'') 0
       \<in> set (trace (onConnClose ''ECONNRESET'' (removeChannel (PhxChannel 1 ''room:1'')
                (addChannel (PhxChannel 1 ''room:1'') (PhxSocket ''ws://h'' 1)))))"
  using removeChannel_keeps_registry
    [of "PhxChannel 1 ''room:1''" "PhxSocket ''ws://h'' 1" "''ECONNRESET''"]
  by (simp add: ctor_defs)

text \<open>
  Claim C4, as the code has it. Processing a "closed" event with a reason calls, first,
  \<^verbatim>\<open>triggerEvent\<close> with event \<^verbatim>\<open>phx_error\<close>, the reason as payload and ref 0 once for
  every entry of the channel registry, in registry order and whatever the topic; then
  the close-callbacks with the reason; then the delegate's did-close hook. The number of
  these calls that a channel gets is the number of entries it has in the registry: one
  when it was added once, two when it was added twice.
\<close>

theorem onConnClose_calls_in_order:
  "trace (onConnClose reason s) =
     trace s
     @ map (\<lambda>c. Chan_triggerEvent c ''phx_error'' (JString reason) 0) (channels s)
     @ map (\<lambda>cb. Cb_close cb reason) (closeCallbacks s)
     @ (case delegate s of None \<Rightarrow> [] | Some d \<Rightarrow> [Del_didClose d reason])
   \<and> count_list (trace (onConnClose reason s)) (Chan_triggerEvent c ''phx_error'' (JString reason) 0) =
       count_list (trace s) (Chan_triggerEvent c ''phx_error'' (JString reason) 0)
       + count_list (channels s) c"
proof -
  have inj: "inj (\<lambda>c. Chan_triggerEvent c ''phx_error'' (JString reason) 0)"
    by (simp add: inj_def)
  have cb: "count_list (map (\<lambda>cb. Cb_close cb reason) xs) (Chan_triggerEvent c a b d) = 0" for xs a b d
    by (induction xs) simp_all
  have tr: "trace (onConnClose reason s) =
     trace s
     @ map (\<lambda>c. Chan_triggerEvent c ''phx_error'' (JString reason) 0) (channels s)
     @ map (\<lambda>cb. Cb_close cb reason) (closeCallbacks s)
     @ (case delegate s of None \<Rightarrow> [] | Some d \<Rightarrow> [Del_didClose d reason])"
    by (simp add: call_defs Let_def split: option.split)
  show ?thesis
    unfolding tr
    by (simp add: count_list_map_conv [OF inj] cb split: option.split)
qed

theorem onConnClose_calls_in_order_witness:
  "trace (onConnClose ''ECONNRESET''
      (setDelegate (Some 9) (onClose 7 (addChannel (PhxChannel 2 ''room:2'')
         (addChannel (PhxChannel 1 ''room:1'') (PhxSocket ''ws://h'' 1)))))) =
     [Chan_triggerEvent (PhxChannel 1 ''room:1'') ''phx_error'' (JString ''ECONNRESET'') 0,
      Chan_triggerEvent (PhxChannel 2 ''room:2'') ''phx_error'' (JString ''ECONNRESET'') 0,
      Cb_close 7 ''ECONNRESET'',
      Del_didClose 9 ''ECONNRESET'']"
  using onConnClose_calls_in_order [of "''ECONNRESET''"
      "setDelegate (Some 9) (onClose 7 (addChannel (PhxChannel 2 ''room:2'')
         (addChannel (PhxChannel 1 ''room:1'') (PhxSocket ''ws://h'' 1))))"]
  by (simp add: ctor_defs addChannel_def onClose_def setDelegate_def)

text \<open>
  Where claim C4 fails as stated: a channel that was added twice. Processing a "closed"
  event calls its \<^verbatim>\<open>triggerEvent\<close> twice.
\<close>

theorem channel_added_twice_gets_two_calls:
  "trace (onConnClose ''ECONNRESET''
      (addChannel (PhxChannel 1 ''room:1'') (addChannel (PhxChannel 1 ''room:1'')
         (PhxSocket ''ws://h'' 1)))) =
     [Chan_triggerEvent (PhxChannel 1 ''room:1'') ''phx_error'' (JString ''ECONNRESET'') 0,
      Chan_triggerEvent (PhxChannel 1 ''room:1'') ''phx_error'' (JString ''ECONNRESET'') 0]
   \<and> channels (addChannel (PhxChannel 1 ''room:1'') (addChannel (PhxChannel 1 ''room:1'')
         (PhxSocket ''ws://h'' 1))) = [PhxChannel 1 ''room:1'', PhxChannel 1 ''room:1'']"
  by (simp add: call_defs ctor_defs Let_def)

lemma deliver_trace:
  "deliver t e p n j s =
     s \<lparr> trace := trace s
          @ map (\<lambda>c. Chan_triggerEvent c e p n) (filter (\<lambda>c. getTopic c = t) (channels s))
          @ map (\<lambda>cb. Cb_message cb j) (messageCallbacks s) \<rparr>"
  by (simp add: deliver_def emit_def Let_def)

lemma onConnMessage_envelope:
  assumes "map_of kvs ''topic'' = Some (JString t)"
    and "map_of kvs ''event'' = Some (JString e)"
    and "map_of kvs ''ref'' = Some r"
    and "map_of kvs ''payload'' = Some p"
  shows "onConnMessage (Some (JObject kvs)) s =
           (case ref_arg r of Inl err \<Rightarrow> Inl err | Inr n \<Rightarrow> Inr (deliver t e p n (JObject kvs) s))"
  using assms by (simp add: onConnMessage_def)

text \<open>
  Claim C8. An incoming envelope (an object with a string topic, a string event, a
  payload, and a ref that is null or an integer) leads to \<^verbatim>\<open>triggerEvent(event, payload,
  ref)\<close> on the registry entries whose topic equals the envelope's topic, in registry
  order, and on no other channel; after that every message-callback is called with the
  whole parsed envelope, whether or not a channel matched. Nothing else changes.
\<close>

theorem onConnMessage_routes_by_topic:
  assumes "map_of kvs ''topic'' = Some (JString t)"
    and "map_of kvs ''event'' = Some (JString e)"
    and "map_of kvs ''ref'' = Some r"
    and "map_of kvs ''payload'' = Some p"
    and "ref_arg r = Inr n"
  shows "onConnMessage (Some (JObject kvs)) s =
           Inr (s \<lparr> trace := trace s
                  @ map (\<lambda>c. Chan_triggerEvent c e p n) (filter (\<lambda>c. getTopic c = t) (channels s))
                  @ map (\<lambda>cb. Cb_message cb (JObject kvs)) (messageCallbacks s) \<rparr>)"
  using onConnMessage_envelope [OF assms(1-4), of s] assms(5)
  by (simp add: deliver_trace)

theorem onConnMessage_routes_by_topic_witness:
  "onConnMessage
     (Some (JObject [(''topic'', JString ''room:1''), (''event'', JString ''new_msg''),
                     (''payload'', JObject [(''body'', JString ''hi'')]), (''ref'', JInt 5)]))
     (onMessage 4 (addChannel (PhxChannel 3 ''room:1'') (addChannel (PhxChannel 2 ''room:2'')
        (addChannel (PhxChannel 1 ''room:1'') (PhxSocket ''ws://h'' 1)))))
   = Inr ((onMessage 4 (addChannel (PhxChannel 3 ''room:1'') (addChannel (PhxChannel 2 ''room:2'')
        (addChannel (PhxChannel 1 ''room:1'') (PhxSocket ''ws://h'' 1)))))
      \<lparr> trace :=
          [Chan_triggerEvent (PhxChannel 1 ''room:1'') ''new_msg'' (JObject [(''body'', JString ''hi'')]) 5,
           Chan_triggerEvent (PhxChannel 3 ''room:1'') ''new_msg'' (JObject [(''body'', JString ''hi'')]) 5,
           Cb_message 4 (JObject [(''topic'', JString ''room:1''), (''event'', JString ''new_msg''),
                     (''payload'', JObject [(''body'', JString ''hi'')]), (''ref'', JInt 5)])] \<rparr>)"
  using onConnMessage_routes_by_topic
    [of "[(''topic'', JString ''room:1''), (''event'', JString ''new_msg''),
          (''payload'', JObject [(''body'', JString ''hi'')]), (''ref'', JInt 5)]"
        "''room:1''" "''new_msg''" "JInt 5" "JObject [(''body'', JString ''hi'')]" 5
        "onMessage 4 (addChannel (PhxChannel 3 ''room:1'') (addChannel (PhxChannel 2 ''room:2'')
        (addChannel (PhxChannel 1 ''room:1'') (PhxSocket ''ws://h'' 1))))"]
  by (simp add: ref_arg_def ctor_defs addChannel_def onMessage_def)

text \<open>
  Claim C6, as the code has it. For an incoming envelope whose ref is null, each matching
  channel's \<^verbatim>\<open>triggerEvent\<close> gets the ref -1, not 0; for one whose ref is the integer
  \<open>n\<close> it gets \<open>n\<close>. Null and an integer are told apart by every integer but -1: the
  integer -1 reaches the channels as null does.
\<close>

theorem onConnMessage_ref_argument:
  assumes "map_of kvs ''topic'' = Some (JString t)"
    and "map_of kvs ''event'' = Some (JString e)"
    and "map_of kvs ''ref'' = Some r"
    and "map_of kvs ''payload'' = Some p"
  shows "(r = JNull \<longrightarrow>
            onConnMessage (Some (JObject kvs)) s =
              Inr (s \<lparr> trace := trace s
                  @ map (\<lambda>c. Chan_triggerEvent c e p (- 1)) (filter (\<lambda>c. getTopic c = t) (channels s))
                  @ map (\<lambda>cb. Cb_message cb (JObject kvs)) (messageCallbacks s) \<rparr>))
       \<and> (r = JInt n \<longrightarrow>
            onConnMessage (Some (JObject kvs)) s =
              Inr (s \<lparr> trace := trace s
                  @ map (\<lambda>c. Chan_triggerEvent c e p n) (filter (\<lambda>c. getTopic c = t) (channels s))
                  @ map (\<lambda>cb. Cb_message cb (JObject kvs)) (messageCallbacks s) \<rparr>))
       \<and> sint (- 1 :: int64) = - 1 \<and> (- 1 :: int64) \<noteq> 0
       \<and> (ref_arg (JInt n) = ref_arg JNull \<longleftrightarrow> n = - 1)"
  using onConnMessage_envelope [OF assms, of s]
  by (auto simp add: deliver_trace ref_arg_def)

theorem onConnMessage_ref_argument_witness:
  "onConnMessage
     (Some (JObject [(''topic'', JString ''room:1''), (''event'', JString ''new_msg''),
                     (''payload'', JString ''hi''), (''ref'', JNull)]))
     (addChannel (PhxChannel 1 ''room:1'') (PhxSocket ''ws://h'' 1))
   = Inr ((addChannel (PhxChannel 1 ''room:1'') (PhxSocket ''ws://h'' 1))
      \<lparr> trace := [Chan_triggerEvent (PhxChannel 1 ''room:1'') ''new_msg'' (JString ''hi'') (- 1)] \<rparr>)"
  using onConnMessage_ref_argument
    [of "[(''topic'', JString ''room:1''), (''event'', JString ''new_msg''),
          (''payload'', JString ''hi''), (''ref'', JNull)]"
        "''room:1''" "''new_msg''" JNull "JString ''hi''"
        "addChannel (PhxChannel 1 ''room:1'') (PhxSocket ''ws://h'' 1)" 7]
  by (simp add: ctor_defs addChannel_def)

text \<open>
  Where claim C6 fails as stated: the same envelope once with ref null and once with
  ref -1. The channel on the topic gets the same call both times.
\<close>

theorem null_ref_and_minus_one_delivered_alike:
  "map_sum id chan_calls
     (onConnMessage
       (Some (JObject [(''topic'', JString ''room:1''), (''event'', JString ''new_msg''),
                       (''payload'', JString ''hi''), (''ref'', JNull)]))
       (addChannel (PhxChannel 1 ''room:1'') (PhxSocket ''ws://h'' 1)))
     = Inr [Chan_triggerEvent (PhxChannel 1 ''room:1'') ''new_msg'' (JString ''hi'') (- 1)]
   \<and> map_sum id chan_calls
     (onConnMessage
       (Some (JObject [(''topic'', JString ''room:1''), (''event'', JString ''new_msg''),
                       (''payload'', JString ''hi''), (''ref'', JInt (- 1))]))
       (addChannel (PhxChannel 1 ''room:1'') (PhxSocket ''ws://h'' 1)))
     = Inr [Chan_triggerEvent (PhxChannel 1 ''room:1'') ''new_msg'' (JString ''hi'') (- 1)]"
  by (simp add: onConnMessage_def ref_arg_def deliver_def emit_def ctor_defs addChannel_def chan_calls_def Let_def)

lemma sendHeartbeat_result:
  "sendHeartbeat s =
     (case socket s of
        None \<Rightarrow> Inl NullSocket
      | Some sk \<Rightarrow>
          Inr (s \<lparr> ref := ref s + 1,
                   trace := trace s @ [Ws sk (Send_dump (heartbeat (ref s)))] \<rparr>))"
  by (simp add: sendHeartbeat_def makeRef_def push_def emit_def split: option.split)

subsection \<open>What each operation does to the counter, the queue, the threads and the flags\<close>

lemma count_list_update_other:
  "xs ! i \<noteq> a \<Longrightarrow> y \<noteq> a \<Longrightarrow> count_list (xs[i := y]) a = count_list xs a"
proof (induction xs arbitrary: i)
  case Nil
  then show ?case by simp
next
  case (Cons x xs)
  then show ?case by (cases i) simp_all
qed

lemma count_list_update_remove:
  "i < length xs \<Longrightarrow> xs ! i = a \<Longrightarrow> y \<noteq> a \<Longrightarrow>
   Suc (count_list (xs[i := y]) a) = count_list xs a"
proof (induction xs arbitrary: i)
  case Nil
  then show ?case by simp
next
  case (Cons x xs)
  then show ?case by (cases i) simp_all
qed

lemma emit_fields:
  "ref (emit es s) = ref s" "pool (emit es s) = pool s" "threads (emit es s) = threads s"
  "reconnecting (emit es s) = reconnecting s" "reconnectOnError (emit es s) = reconnectOnError s"
  "url (emit es s) = url s"
  "delegate (emit es s) = delegate s"
  by (simp_all add: emit_def)

lemma notify_fields:
  "ref (notify f s) = ref s" "pool (notify f s) = pool s" "threads (notify f s) = threads s"
  "reconnecting (notify f s) = reconnecting s" "reconnectOnError (notify f s) = reconnectOnError s"
  "url (notify f s) = url s"
  by (simp_all add: notify_def emit_fields split: option.split)

lemma enqueue_fields:
  "ref (enqueue t s) = ref s" "pool (enqueue t s) = pool s @ [t]" "threads (enqueue t s) = threads s"
  "reconnecting (enqueue t s) = reconnecting s" "reconnectOnError (enqueue t s) = reconnectOnError s"
  "url (enqueue t s) = url s"
  by (simp_all add: enqueue_def)

lemma disconnectSocket_fields:
  "ref (disconnectSocket s) = ref s" "pool (disconnectSocket s) = pool s"
  "threads (disconnectSocket s) = threads s" "reconnecting (disconnectSocket s) = reconnecting s"
  "reconnectOnError (disconnectSocket s) = reconnectOnError s"
  "url (disconnectSocket s) = url s"
  "params (disconnectSocket s) = params s"
  by (simp_all add: disconnectSocket_def emit_def split: option.split)

lemma connect_fields:
  "ref (connect p s) = ref s" "pool (connect p s) = pool s @ [SetCanReconnect False]"
  "threads (connect p s) = threads s" "reconnecting (connect p s) = reconnecting s"
  "reconnectOnError (connect p s) = reconnectOnError s"
  "url (connect p s) = url s"
  by (simp_all add: connect_def setCanReconnect_def enqueue_def emit_def Let_def)

lemma disconnect_fields:
  "ref (disconnect s) = ref s"
  "pool (disconnect s) = pool s @ [SetCanSendHeartBeat False, SetCanReconnect False]"
  "threads (disconnect s) = threads s" "reconnecting (disconnect s) = reconnecting s"
  "reconnectOnError (disconnect s) = reconnectOnError s"
  "url (disconnect s) = url s"
  by (simp_all add: disconnect_def disconnectSocket_fields discardReconnectTimer_def
      discardHeartBeatTimer_def setCanReconnect_def setCanSendHeartBeat_def enqueue_fields)

lemma reconnect_fields:
  "ref (reconnect s) = ref s" "pool (reconnect s) = pool s @ [SetCanReconnect False]"
  "threads (reconnect s) = threads s" "reconnecting (reconnect s) = reconnecting s"
  "reconnectOnError (reconnect s) = reconnectOnError s"
  "url (reconnect s) = url s"
  by (simp_all add: reconnect_def connect_fields disconnectSocket_fields)

lemma onConnOpen_fields:
  "ref (onConnOpen s) = ref s" "pool (onConnOpen s) = pool s @ [SetCanReconnect False]"
  "threads (onConnOpen s) = threads s @ (if heartBeatInterval s > 0 then [HbInit] else [])"
  "reconnecting (onConnOpen s) = reconnecting s"
  "reconnectOnError (onConnOpen s) = reconnectOnError s"
  "url (onConnOpen s) = url s"
  by (simp_all add: onConnOpen_def notify_fields emit_fields discardReconnectTimer_def
      setCanReconnect_def enqueue_def Let_def)

lemma onConnClose_fields:
  "ref (onConnClose r s) = ref s" "pool (onConnClose r s) = pool s @ [SetCanSendHeartBeat False]"
  "threads (onConnClose r s) =
     threads s @ (if reconnectOnError s \<and> \<not> reconnecting s then [RcSleep] else [])"
  "reconnecting (onConnClose r s) = (if reconnectOnError s then True else reconnecting s)"
  "reconnectOnError (onConnClose r s) = reconnectOnError s"
  "url (onConnClose r s) = url s"
  by (simp_all add: onConnClose_def notify_fields emit_fields discardHeartBeatTimer_def
      setCanSendHeartBeat_def enqueue_def triggerChanError_def emit_def Let_def)

lemma onConnError_fields:
  "ref (onConnError r s) = ref s"
  "pool (onConnError r s) = pool s @ [SetCanSendHeartBeat False, SetCanSendHeartBeat False]"
  "threads (onConnError r s) =
     threads s @ (if reconnectOnError s \<and> \<not> reconnecting s then [RcSleep] else [])"
  "reconnecting (onConnError r s) = (if reconnectOnError s then True else reconnecting s)"
  "reconnectOnError (onConnError r s) = reconnectOnError s"
  "url (onConnError r s) = url s"
  by (simp_all add: onConnError_def onConnClose_fields notify_fields emit_fields
      discardHeartBeatTimer_def setCanSendHeartBeat_def enqueue_fields Let_def)

lemma onConnMessage_fields:
  assumes "onConnMessage m s = Inr s'"
  shows "ref s' = ref s" "pool s' = pool s" "threads s' = threads s"
    "reconnecting s' = reconnecting s" "reconnectOnError s' = reconnectOnError s"
    "url s' = url s"
proof -
  from assms obtain t e p n j where "s' = deliver t e p n j s"
    by (auto simp add: onConnMessage_def split: option.splits sum.splits)
  then show "ref s' = ref s" "pool s' = pool s" "threads s' = threads s"
    "reconnecting s' = reconnecting s" "reconnectOnError s' = reconnectOnError s"
    "url s' = url s"
    by (simp_all add: deliver_trace)
qed

lemma sendHeartbeat_fields:
  assumes "sendHeartbeat s = Inr s'"
  shows "ref s' = ref s + 1" "pool s' = pool s" "threads s' = threads s"
    "reconnecting s' = reconnecting s" "reconnectOnError s' = reconnectOnError s"
    "url s' = url s"
  using assms by (auto simp add: sendHeartbeat_result split: option.splits)

lemma push_fields:
  assumes "push d s = Inr s'"
  shows "ref s' = ref s" "pool s' = pool s" "threads s' = threads s"
    "reconnecting s' = reconnecting s" "reconnectOnError s' = reconnectOnError s"
    "url s' = url s"
  using assms by (auto simp add: push_def emit_def split: option.splits)

lemmas op_fields =
  emit_fields notify_fields enqueue_fields disconnectSocket_fields connect_fields
  disconnect_fields reconnect_fields onConnOpen_fields onConnClose_fields onConnError_fields

lemma run_task_fields:
  assumes "run_task t s = Inr s'"
  shows "ref s' = (if t = SendHeartbeat then ref s + 1 else ref s)
    \<and> reconnectOnError s' = reconnectOnError s
    \<and> url s' = url s
    \<and> reconnecting s' =
           (case t of
              ReconnectTask \<Rightarrow> False
            | OnConnClose r \<Rightarrow> (if reconnectOnError s then True else reconnecting s)
            | OnConnError r \<Rightarrow> (if reconnectOnError s then True else reconnecting s)
            | _ \<Rightarrow> reconnecting s)
    \<and> count_list (pool s') ReconnectTask = count_list (pool s) ReconnectTask
    \<and> count_list (threads s') RcSleep =
           count_list (threads s) RcSleep +
           (case t of
              OnConnClose r \<Rightarrow> (if reconnectOnError s \<and> \<not> reconnecting s then 1 else 0)
            | OnConnError r \<Rightarrow> (if reconnectOnError s \<and> \<not> reconnecting s then 1 else 0)
            | _ \<Rightarrow> 0)"
proof (cases t)
  case (OnConnMessage m)
  with assms have "onConnMessage m s = Inr s'" by (simp add: run_task_def)
  from onConnMessage_fields [OF this] OnConnMessage show ?thesis by simp
next
  case SendHeartbeat
  with assms have "sendHeartbeat s = Inr s'" by (simp add: run_task_def)
  from sendHeartbeat_fields [OF this] SendHeartbeat show ?thesis by simp
next
  case ReconnectTask
  with assms show ?thesis
    by (cases "canReconnect s") (auto simp add: run_task_def reconnect_fields)
qed (use assms in \<open>auto simp add: run_task_def op_fields\<close>)

lemma thread_step_fields:
  "ref (thread_step i s) = ref s
   \<and> reconnectOnError (thread_step i s) = reconnectOnError s
   \<and> url (thread_step i s) = url s
   \<and> reconnecting (thread_step i s) = reconnecting s
   \<and> attempts (thread_step i s) = attempts s"
proof (cases "i < length (threads s)")
  case False
  then show ?thesis by (simp add: thread_step_def)
next
  case True
  show ?thesis
  proof (cases "threads s ! i")
    case RcSleep
    with True count_list_update_remove [of i "threads s" RcSleep Done] show ?thesis
      by (simp add: thread_step_def attempts_def enqueue_def)
  qed (use True in \<open>simp_all add: thread_step_def attempts_def enqueue_def setCanSendHeartBeat_def
         count_list_update_other\<close>)
qed

lemma step_fields:
  assumes "step a s = Inr s'"
  shows "ref s' = (if calls_makeRef a s then ref s + 1 else ref s)
    \<and> reconnectOnError s' = reconnectOnError s
    \<and> url s' = url s
    \<and> (attempts s = (if reconnecting s then 1 else 0) \<longrightarrow>
           attempts s' = (if reconnecting s' then 1 else 0))"
proof (cases a)
  case Worker
  show ?thesis
  proof (cases "pool s")
    case Nil
    with Worker assms show ?thesis by (simp add: step_def calls_makeRef_def)
  next
    case (Cons t ts)
    with Worker assms have rt: "run_task t (s \<lparr> pool := ts \<rparr>) = Inr s'"
      by (simp add: step_def)
    from run_task_fields [OF rt] Cons Worker show ?thesis
      by (cases t) (auto simp add: attempts_def calls_makeRef_def)
  qed
next
  case (Thread i)
  with assms thread_step_fields [of i s] show ?thesis
    by (simp add: step_def calls_makeRef_def)
next
  case (Call_push d)
  with assms have "push d s = Inr s'" by (simp add: step_def)
  from push_fields [OF this] Call_push show ?thesis
    by (simp add: attempts_def calls_makeRef_def)
next
  case Call_makeRef
  with assms show ?thesis
    by (auto simp add: step_def makeRef_def attempts_def calls_makeRef_def)
qed (use assms in \<open>auto simp add: step_def attempts_def calls_makeRef_def op_fields
       addChannel_def removeChannel_def onOpen_def onClose_def onError_def onMessage_def
       setDelegate_def\<close>)

lemma run_fields:
  "run acts s = Inr s' \<Longrightarrow>
   reconnectOnError s' = reconnectOnError s
   \<and> url s' = url s
   \<and> (attempts s = (if reconnecting s then 1 else 0) \<longrightarrow>
        attempts s' = (if reconnecting s' then 1 else 0))"
proof (induction acts arbitrary: s)
  case Nil
  then show ?case by simp
next
  case (Cons a acts)
  then obtain s1 where s1: "step a s = Inr s1" and rest: "run acts s1 = Inr s'"
    by (auto split: sum.splits)
  from step_fields [OF s1] Cons.IH [OF rest] show ?case by simp
qed

text \<open>
  Claim C10. Two calls of \<^verbatim>\<open>connect\<close> that differ only in their params leave states that
  differ only in the stored params: the same transport object, and on it the same
  \<^verbatim>\<open>setURL\<close> with the controller's own URL followed by the same \<^verbatim>\<open>open()\<close>. In any
  state that a run from a fresh controller reaches, that URL is still the one the
  constructor was given.
\<close>

theorem connect_ignores_params:
  "connect p1 s = (connect p2 s) \<lparr> params := p1 \<rparr>
   \<and> trace (connect p1 s) = trace (connect p2 s)
   \<and> socket (connect p1 s) = socket (connect p2 s)
   \<and> url (connect p1 s) = url s
   \<and> trace (connect p1 s) =
       trace s @ [Ws (case socket s of None \<Rightarrow> EasySocket (url s) | Some k \<Rightarrow> k) (SetURL (url s)),
                  Ws (case socket s of None \<Rightarrow> EasySocket (url s) | Some k \<Rightarrow> k) Open]
   \<and> url (PhxSocket u i) = u \<and> url (PhxSocket_url u) = u \<and> url (PhxSocket_injected u i) = u
   \<and> (run acts s0 = Inr s \<longrightarrow> url s = url s0)"
proof -
  have a: "connect p1 s = (connect p2 s) \<lparr> params := p1 \<rparr>
   \<and> trace (connect p1 s) = trace (connect p2 s)
   \<and> socket (connect p1 s) = socket (connect p2 s)
   \<and> url (connect p1 s) = url s
   \<and> trace (connect p1 s) =
       trace s @ [Ws (case socket s of None \<Rightarrow> EasySocket (url s) | Some k \<Rightarrow> k) (SetURL (url s)),
                  Ws (case socket s of None \<Rightarrow> EasySocket (url s) | Some k \<Rightarrow> k) Open]"
    by (simp add: call_defs Let_def split: option.split)
  have b: "url (PhxSocket u i) = u \<and> url (PhxSocket_url u) = u \<and> url (PhxSocket_injected u i) = u"
    by (simp add: ctor_defs PhxSocket_url_def PhxSocket_injected_def)
  have c: "run acts s0 = Inr s \<longrightarrow> url s = url s0"
    using run_fields [of acts s0 s] by simp
  from a b c show ?thesis by blast
qed

theorem connect_ignores_params_witness:
  "run [Call_connect [(''token'', ''abc'')], Worker, Call_disconnect, Worker, Worker]
       (PhxSocket ''ws://h'' 1)
     = Inr (projr (run [Call_connect [(''token'', ''abc'')], Worker, Call_disconnect, Worker, Worker]
                     (PhxSocket ''ws://h'' 1)))
   \<and> url (projr (run [Call_connect [(''token'', ''abc'')], Worker, Call_disconnect, Worker, Worker]
                     (PhxSocket ''ws://h'' 1))) = ''ws://h''
   \<and> trace (connect []
         (projr (run [Call_connect [(''token'', ''abc'')], Worker, Call_disconnect, Worker, Worker]
                     (PhxSocket ''ws://h'' 1))))
     = trace (connect [(''token'', ''xyz'')]
         (projr (run [Call_connect [(''token'', ''abc'')], Worker, Call_disconnect, Worker, Worker]
                     (PhxSocket ''ws://h'' 1))))
   \<and> trace (connect []
         (projr (run [Call_connect [(''token'', ''abc'')], Worker, Call_disconnect, Worker, Worker]
                     (PhxSocket ''ws://h'' 1))))
     = [Ws (EasySocket ''ws://h'') (SetURL ''ws://h''), Ws (EasySocket ''ws://h'') Open,
        Ws (EasySocket ''ws://h'') SetDelegate_nullptr, Ws (EasySocket ''ws://h'') Close,
        Ws (EasySocket ''ws://h'') (SetURL ''ws://h''), Ws (EasySocket ''ws://h'') Open]"
  using connect_ignores_params
    [of "[]"
        "projr (run [Call_connect [(''token'', ''abc'')], Worker, Call_disconnect, Worker, Worker]
                     (PhxSocket ''ws://h'' 1))"
        "[(''token'', ''xyz'')]" "''ws://h''" 1
        "[Call_connect [(''token'', ''abc'')], Worker, Call_disconnect, Worker, Worker]"
        "PhxSocket ''ws://h'' 1"]
  by (simp add: call_defs machine_defs ctor_defs Let_def)

subsection \<open>The queue behind the task that runs\<close>

lemma onConnMessage_pool:
  "onConnMessage m (x \<lparr> pool := p \<rparr>) = map_sum id (\<lambda>y. y \<lparr> pool := p \<rparr>) (onConnMessage m x)"
  by (simp add: onConnMessage_def deliver_trace split: option.split sum.split prod.split)

lemma onConnOpen_pool:
  "onConnOpen (x \<lparr> pool := p \<rparr>) = (onConnOpen (x \<lparr> pool := [] \<rparr>)) \<lparr> pool := p @ [SetCanReconnect False] \<rparr>"
  by (cases "delegate x"; cases "0 < heartBeatInterval x") (simp_all add: call_defs Let_def)

lemma onConnClose_pool:
  "onConnClose r (x \<lparr> pool := p \<rparr>) =
     (onConnClose r (x \<lparr> pool := [] \<rparr>)) \<lparr> pool := p @ [SetCanSendHeartBeat False] \<rparr>"
  by (cases "delegate x"; cases "reconnectOnError x"; cases "reconnecting x")
    (simp_all add: call_defs Let_def)

lemma onConnError_pool:
  "onConnError r (x \<lparr> pool := p \<rparr>) =
     (onConnError r (x \<lparr> pool := [] \<rparr>))
       \<lparr> pool := p @ [SetCanSendHeartBeat False, SetCanSendHeartBeat False] \<rparr>"
  by (cases "delegate x"; cases "reconnectOnError x"; cases "reconnecting x")
    (simp_all add: call_defs Let_def)

lemma reconnect_pool:
  "reconnect (x \<lparr> pool := p, canReconnect := b \<rparr>) =
     (reconnect (x \<lparr> pool := [], canReconnect := b \<rparr>)) \<lparr> pool := p @ [SetCanReconnect False] \<rparr>"
  by (cases "socket x") (simp_all add: call_defs Let_def)

lemma run_task_pool:
  "run_task t (x \<lparr> pool := p \<rparr>) =
     map_sum id (\<lambda>y. y \<lparr> pool := p @ pool y \<rparr>) (run_task t (x \<lparr> pool := [] \<rparr>))"
proof (cases t)
  case (OnConnMessage m)
  have "run_task t (x \<lparr> pool := p \<rparr>) = map_sum id (\<lambda>y. y \<lparr> pool := p \<rparr>) (onConnMessage m x)"
    using OnConnMessage by (simp add: run_task_def onConnMessage_pool)
  moreover have "run_task t (x \<lparr> pool := [] \<rparr>) = map_sum id (\<lambda>y. y \<lparr> pool := [] \<rparr>) (onConnMessage m x)"
    using OnConnMessage by (simp add: run_task_def onConnMessage_pool)
  ultimately show ?thesis
    by (cases "onConnMessage m x") simp_all
next
  case SendHeartbeat
  then show ?thesis
    by (simp add: run_task_def sendHeartbeat_result split: option.split)
next
  case ReconnectTask
  have "pool (reconnect y) = pool y @ [SetCanReconnect False]" for y
    by (rule reconnect_fields)
  with ReconnectTask show ?thesis
    using reconnect_pool [where x = x and p = p and b = False]
    by (cases "canReconnect x") (simp_all add: run_task_def)
next
  case (OnConnError e)
  have "pool (onConnError e y) = pool y @ [SetCanSendHeartBeat False, SetCanSendHeartBeat False]" for y
    by (rule onConnError_fields)
  with OnConnError show ?thesis
    by (simp add: run_task_def onConnError_pool [where r = e and x = x and p = p])
next
  case (OnConnClose r)
  have "pool (onConnClose r y) = pool y @ [SetCanSendHeartBeat False]" for y
    by (rule onConnClose_fields)
  with OnConnClose show ?thesis
    by (simp add: run_task_def onConnClose_pool [where r = r and x = x and p = p])
next
  case OnConnOpen
  have "pool (onConnOpen y) = pool y @ [SetCanReconnect False]" for y
    by (rule onConnOpen_fields)
  with OnConnOpen show ?thesis
    by (simp add: run_task_def onConnOpen_pool [where x = x and p = p])
qed (simp_all add: run_task_def)

lemma run_append:
  "run (xs @ ys) s = (case run xs s of Inl e \<Rightarrow> Inl e | Inr s' \<Rightarrow> run ys s')"
  by (induction xs arbitrary: s) (simp_all split: sum.split)

lemma drain_prefix:
  "run (replicate (length pre) Worker) (x \<lparr> pool := pre @ sfx \<rparr>) =
     map_sum id (\<lambda>y. y \<lparr> pool := sfx @ pool y \<rparr>)
       (run (replicate (length pre) Worker) (x \<lparr> pool := pre \<rparr>))"
proof (induction pre arbitrary: x sfx)
  case Nil
  show ?case by simp
next
  case (Cons t pre)
  show ?case
  proof (cases "run_task t (x \<lparr> pool := [] \<rparr>)")
    case (Inl e)
    then show ?thesis
      by (simp add: step_def run_task_pool [where t = t and x = x and p = "pre @ sfx"] run_task_pool [where t = t and x = x and p = pre])
  next
    case (Inr y)
    have l: "run (replicate (length (t # pre)) Worker) (x \<lparr> pool := (t # pre) @ sfx \<rparr>) =
               run (replicate (length pre) Worker) (y \<lparr> pool := pre @ (sfx @ pool y) \<rparr>)"
      using Inr by (simp add: step_def run_task_pool [where t = t and x = x and p = "pre @ sfx"])
    have r: "run (replicate (length (t # pre)) Worker) (x \<lparr> pool := t # pre \<rparr>) =
               run (replicate (length pre) Worker) (y \<lparr> pool := pre @ pool y \<rparr>)"
      using Inr by (simp add: step_def run_task_pool [where t = t and x = x and p = pre])
    show ?thesis
      unfolding l r Cons.IH [where x = y and sfx = "sfx @ pool y"] Cons.IH [where x = y and sfx = "pool y"]
      by (cases "run (replicate (length pre) Worker) (y \<lparr> pool := pre \<rparr>)") simp_all
  qed
qed

lemma drain_then:
  assumes "\<And>y. run ws (y \<lparr> pool := sfx @ pool y \<rparr>) = Inr (f y)"
  shows "run (replicate (length pre) Worker @ ws) (x \<lparr> pool := pre @ sfx \<rparr>) =
           map_sum id f (run (replicate (length pre) Worker) (x \<lparr> pool := pre \<rparr>))"
  unfolding run_append drain_prefix
  by (cases "run (replicate (length pre) Worker) (x \<lparr> pool := pre \<rparr>)") (simp_all add: assms)

lemma reconnect_drained:
  "run (replicate (length (pool s)) Worker @ [Worker]) (reconnect s) =
     map_sum id (\<lambda>y. y \<lparr> canReconnect := False \<rparr>)
       (run (replicate (length (pool s)) Worker) ((reconnect s) \<lparr> pool := pool s \<rparr>))"
proof -
  have e: "(reconnect s) \<lparr> pool := pool s @ [SetCanReconnect False] \<rparr> = reconnect s"
    by (cases "socket s") (simp_all add: call_defs Let_def)
  have w: "run [Worker] (y \<lparr> pool := [SetCanReconnect False] @ pool y \<rparr>) =
             Inr (y \<lparr> canReconnect := False \<rparr>)" for y
    by (simp add: step_def run_task_def)
  from drain_then [OF w, where pre = "pool s" and x = "reconnect s"] show ?thesis
    by (simp only: e)
qed

lemma disconnect_connect_drained:
  "run (replicate (length (pool s)) Worker @ [Worker, Worker, Worker])
       (connect (params s) (disconnect s)) =
     map_sum id (\<lambda>y. y \<lparr> canSendHeartbeat := False, canReconnect := False \<rparr>)
       (run (replicate (length (pool s)) Worker) ((reconnect s) \<lparr> pool := pool s \<rparr>))"
proof -
  have e: "(reconnect s)
             \<lparr> pool := pool s @ [SetCanSendHeartBeat False, SetCanReconnect False, SetCanReconnect False] \<rparr>
           = connect (params s) (disconnect s)"
    by (cases "socket s") (simp_all add: call_defs Let_def)
  have w: "run [Worker, Worker, Worker]
             (y \<lparr> pool := [SetCanSendHeartBeat False, SetCanReconnect False, SetCanReconnect False] @ pool y \<rparr>) =
             Inr (y \<lparr> canSendHeartbeat := False, canReconnect := False \<rparr>)" for y
    by (simp add: step_def run_task_def)
  from drain_then [OF w, where pre = "pool s" and x = "reconnect s"] show ?thesis
    by (simp only: e)
qed

lemma drained_compare:
  "run (replicate (length (pool s)) Worker @ [Worker, Worker, Worker])
       (connect (params s) (disconnect s)) =
     map_sum id (\<lambda>a. a \<lparr> canSendHeartbeat := False \<rparr>)
       (run (replicate (length (pool s)) Worker @ [Worker]) (reconnect s))"
  unfolding reconnect_drained disconnect_connect_drained
  by (cases "run (replicate (length (pool s)) Worker) ((reconnect s) \<lparr> pool := pool s \<rparr>)") simp_all

text \<open>
  Claim C5, as the code has it. In every state, \<^verbatim>\<open>reconnect()\<close> makes the transport calls
  of \<^verbatim>\<open>disconnect()\<close> followed by \<^verbatim>\<open>connect(p)\<close>, \<open>p\<close> the params last stored, and
  leaves the same state except for the queue: it appends one "set canReconnect to false",
  where disconnect-then-connect appends "set canSendHeartbeat to false" and twice "set
  canReconnect to false". Once the worker has run the tasks queued before the call and
  the appended ones, the state after disconnect-then-connect is the state after
  \<^verbatim>\<open>reconnect()\<close> with canSendHeartbeat set to false, and a task that fails on one side
  fails on the other. When the queue is empty at the call, \<^verbatim>\<open>reconnect()\<close> and its task
  leave canSendHeartbeat as it was.
\<close>

theorem reconnect_versus_disconnect_connect:
  "trace (reconnect s) = trace (connect (params s) (disconnect s))
   \<and> socket (reconnect s) = socket (connect (params s) (disconnect s))
   \<and> reconnect s = (connect (params s) (disconnect s)) \<lparr> pool := pool s @ [SetCanReconnect False] \<rparr>
   \<and> pool (connect (params s) (disconnect s)) =
       pool s @ [SetCanSendHeartBeat False, SetCanReconnect False, SetCanReconnect False]
   \<and> run (replicate (length (pool s)) Worker @ [Worker, Worker, Worker])
         (connect (params s) (disconnect s)) =
       map_sum id (\<lambda>a. a \<lparr> canSendHeartbeat := False \<rparr>)
         (run (replicate (length (pool s)) Worker @ [Worker]) (reconnect s))
   \<and> (pool s = [] \<longrightarrow>
        run [Worker] (reconnect s) =
          map_sum id (\<lambda>s'. s' \<lparr> canSendHeartbeat := canSendHeartbeat s \<rparr>)
            (run [Worker, Worker, Worker] (connect (params s) (disconnect s)))
        \<and> isl (run [Worker] (reconnect s)) = False
        \<and> map_sum id pool (run [Worker] (reconnect s)) = Inr []
        \<and> map_sum id pool (run [Worker, Worker, Worker] (connect (params s) (disconnect s))) = Inr []
        \<and> map_sum id canSendHeartbeat (run [Worker] (reconnect s)) = Inr (canSendHeartbeat s)
        \<and> map_sum id canSendHeartbeat
             (run [Worker, Worker, Worker] (connect (params s) (disconnect s))) = Inr False)"
proof -
  have now: "trace (reconnect s) = trace (connect (params s) (disconnect s))
   \<and> socket (reconnect s) = socket (connect (params s) (disconnect s))
   \<and> reconnect s = (connect (params s) (disconnect s)) \<lparr> pool := pool s @ [SetCanReconnect False] \<rparr>
   \<and> pool (connect (params s) (disconnect s)) =
       pool s @ [SetCanSendHeartBeat False, SetCanReconnect False, SetCanReconnect False]"
    by (cases "socket s") (simp_all add: call_defs Let_def)
  have later: "run (replicate (length (pool s)) Worker @ [Worker, Worker, Worker])
         (connect (params s) (disconnect s)) =
       map_sum id (\<lambda>a. a \<lparr> canSendHeartbeat := False \<rparr>)
         (run (replicate (length (pool s)) Worker @ [Worker]) (reconnect s))"
    by (rule drained_compare)
  have idle: "pool s = [] \<longrightarrow>
        run [Worker] (reconnect s) =
          map_sum id (\<lambda>s'. s' \<lparr> canSendHeartbeat := canSendHeartbeat s \<rparr>)
            (run [Worker, Worker, Worker] (connect (params s) (disconnect s)))
        \<and> isl (run [Worker] (reconnect s)) = False
        \<and> map_sum id pool (run [Worker] (reconnect s)) = Inr []
        \<and> map_sum id pool (run [Worker, Worker, Worker] (connect (params s) (disconnect s))) = Inr []
        \<and> map_sum id canSendHeartbeat (run [Worker] (reconnect s)) = Inr (canSendHeartbeat s)
        \<and> map_sum id canSendHeartbeat
             (run [Worker, Worker, Worker] (connect (params s) (disconnect s))) = Inr False"
    by (cases "socket s") (simp_all add: call_defs machine_defs Let_def)
  from now later idle show ?thesis by blast
qed

theorem reconnect_versus_disconnect_connect_witness:
  "pool (PhxSocket_injected ''ws://h'' 1) = []
   \<and> run [Worker] (reconnect (PhxSocket_injected ''ws://h'' 1)) =
     Inr ((PhxSocket_injected ''ws://h'' 1)
       \<lparr> socket := Some (EasySocket ''ws://h''),
         trace := [Ws Injected SetDelegate_nullptr, Ws Injected Close,
                   Ws (EasySocket ''ws://h'') (SetURL ''ws://h''), Ws (EasySocket ''ws://h'') Open] \<rparr>)
   \<and> run [Worker, Worker, Worker] (connect [] (disconnect (PhxSocket_injected ''ws://h'' 1))) =
     Inr ((PhxSocket_injected ''ws://h'' 1)
       \<lparr> socket := Some (EasySocket ''ws://h''),
         trace := [Ws Injected SetDelegate_nullptr, Ws Injected Close,
                   Ws (EasySocket ''ws://h'') (SetURL ''ws://h''), Ws (EasySocket ''ws://h'') Open] \<rparr>)"
  using reconnect_versus_disconnect_connect [of "PhxSocket_injected ''ws://h'' 1"]
  by (simp add: call_defs machine_defs PhxSocket_injected_def PhxSocket_members_def Let_def)

text \<open>
  Where claim C5 fails as stated: a controller whose transport has opened and whose
  heartbeat loop has started. After \<^verbatim>\<open>reconnect()\<close> and the tasks it submitted,
  canSendHeartbeat is still true; after \<^verbatim>\<open>disconnect()\<close>, \<^verbatim>\<open>connect()\<close> with the same
  params and the tasks they submitted, it is false.
\<close>

theorem reconnect_keeps_heartbeat_flag:
  "map_sum id canSendHeartbeat
     (run [Call_connect [], Worker, WebSocketDidOpen, Worker, Worker, Thread 0, Worker,
           Call_reconnect, Worker] (PhxSocket ''ws://h'' 1)) = Inr True
   \<and> map_sum id canSendHeartbeat
     (run [Call_connect [], Worker, WebSocketDidOpen, Worker, Worker, Thread 0, Worker,
           Call_disconnect, Call_connect [], Worker, Worker, Worker] (PhxSocket ''ws://h'' 1)) = Inr False
   \<and> map_sum id pool
     (run [Call_connect [], Worker, WebSocketDidOpen, Worker, Worker, Thread 0, Worker,
           Call_reconnect, Worker] (PhxSocket ''ws://h'' 1)) = Inr []
   \<and> map_sum id pool
     (run [Call_connect [], Worker, WebSocketDidOpen, Worker, Worker, Thread 0, Worker,
           Call_disconnect, Call_connect [], Worker, Worker, Worker] (PhxSocket ''ws://h'' 1)) = Inr []"
  by (simp add: call_defs machine_defs ctor_defs Let_def)

subsection \<open>Timers that fire on a controller at rest\<close>

lemma step_at_rest:
  assumes "at_rest s" and "timer_or_worker a"
  shows "\<exists>s'. step a s = Inr s' \<and> at_rest s' \<and> trace s' = trace s \<and> socket s' = socket s
           \<and> ref s' = ref s"
proof (cases a)
  case Worker
  show ?thesis
  proof (cases "pool s")
    case Nil
    with Worker assms show ?thesis by (simp add: step_def)
  next
    case (Cons t ts)
    with assms have "resets t" "list_all resets ts" by (simp_all add: at_rest_def)
    with Worker Cons assms show ?thesis
      by (cases t) (simp_all add: step_def run_task_def at_rest_def)
  qed
next
  case (Thread i)
  show ?thesis
  proof (cases "i < length (threads s)")
    case False
    with Thread assms show ?thesis by (simp add: step_def thread_step_def)
  next
    case True
    then have mem: "threads s ! i \<in> set (threads s)" by simp
    have upd: "HbInit \<notin> set ((threads s)[i := Done])"
      using assms(1) set_update_subset_insert [of "threads s" i Done]
      by (auto simp add: at_rest_def)
    from Thread assms True mem upd show ?thesis
      by (cases "threads s ! i") (auto simp add: step_def thread_step_def at_rest_def enqueue_def)
  qed
qed (use assms in simp_all)

lemma run_at_rest:
  "at_rest s \<Longrightarrow> list_all timer_or_worker acts \<Longrightarrow>
   \<exists>s'. run acts s = Inr s' \<and> at_rest s' \<and> trace s' = trace s \<and> socket s' = socket s
           \<and> ref s' = ref s"
proof (induction acts arbitrary: s)
  case Nil
  then show ?case by simp
next
  case (Cons a acts)
  then have "timer_or_worker a" and rest: "list_all timer_or_worker acts" by simp_all
  from step_at_rest [OF Cons.prems(1) this(1)]
  obtain s1 where s1: "step a s = Inr s1" "at_rest s1" "trace s1 = trace s" "socket s1 = socket s"
    "ref s1 = ref s"
    by blast
  from Cons.IH [OF s1(2) rest] s1 show ?case by auto
qed

lemma fresh_fields:
  assumes "fresh s"
  shows "ref s = 0" "reconnectOnError s" "\<not> reconnecting s" "attempts s = 0"
proof -
  from assms consider "s = PhxSocket (url s) (heartBeatInterval s)"
    | "s = PhxSocket_injected (url s) (heartBeatInterval s)"
    by (auto simp add: fresh_def)
  then have "ref s = 0 \<and> reconnectOnError s \<and> \<not> reconnecting s \<and> attempts s = 0"
  proof cases
    case 1
    have "ref (PhxSocket u i) = 0 \<and> reconnectOnError (PhxSocket u i)
        \<and> \<not> reconnecting (PhxSocket u i) \<and> attempts (PhxSocket u i) = 0" for u i
      by (simp add: ctor_defs attempts_def)
    from this [of "url s" "heartBeatInterval s"] 1 show ?thesis by simp
  next
    case 2
    have "ref (PhxSocket_injected u i) = 0 \<and> reconnectOnError (PhxSocket_injected u i)
        \<and> \<not> reconnecting (PhxSocket_injected u i) \<and> attempts (PhxSocket_injected u i) = 0" for u i
      by (simp add: PhxSocket_injected_def PhxSocket_members_def attempts_def)
    from this [of "url s" "heartBeatInterval s"] 2 show ?thesis by simp
  qed
  then show "ref s = 0" "reconnectOnError s" "\<not> reconnecting s" "attempts s = 0"
    by simp_all
qed

lemma fresh_ctor:
  "fresh (PhxSocket u i)" "fresh (PhxSocket_url u)" "fresh (PhxSocket_injected u i)"
  by (simp_all add: fresh_def PhxSocket_url_def PhxSocket_def PhxSocket_injected_def
      PhxSocket_members_def)

subsection \<open>The values of the reference counter\<close>

lemma minted_shape:
  "minted acts s = map (\<lambda>k. ref s + of_nat k) [0..<length (minted acts s)]"
proof (induction acts arbitrary: s)
  case Nil
  then show ?case by simp
next
  case (Cons a acts)
  show ?case
  proof (cases "step a s")
    case (Inl e)
    then show ?thesis by (simp add: makeRef_def)
  next
    case (Inr s1)
    from step_fields [OF Inr]
    have r1: "ref s1 = (if calls_makeRef a s then ref s + 1 else ref s)" by simp
    let ?m = "length (minted acts s1)"
    have ih: "minted acts s1 = map (\<lambda>k. ref s1 + of_nat k) [0..<?m]"
      by (rule Cons.IH)
    show ?thesis
    proof (cases "calls_makeRef a s")
      case False
      with Inr r1 ih show ?thesis by simp
    next
      case True
      have "minted (a # acts) s = ref s # minted acts s1"
        using True Inr by (simp add: makeRef_def)
      also have "\<dots> = ref s # map (\<lambda>k. ref s + of_nat (Suc k)) [0..<?m]"
      proof -
        have "(\<lambda>k. ref s1 + of_nat k) = (\<lambda>k. ref s + of_nat (Suc k))"
          using r1 True by (auto simp add: add.assoc)
        with ih show ?thesis by simp
      qed
      also have "\<dots> = map (\<lambda>k. ref s + of_nat k) [0..<Suc ?m]"
        by (simp add: upt_conv_Cons map_Suc_upt [symmetric] del: upt_Suc)
      finally show ?thesis
        using True Inr by simp
    qed
  qed
qed

lemma run_ref:
  "run acts s = Inr s' \<Longrightarrow> ref s' = ref s + of_nat (length (minted acts s))"
proof (induction acts arbitrary: s)
  case Nil
  then show ?case by simp
next
  case (Cons a acts)
  then obtain s1 where s1: "step a s = Inr s1" and rest: "run acts s1 = Inr s'"
    by (auto split: sum.splits)
  from step_fields [OF s1] Cons.IH [OF rest] s1 show ?case
    by (simp add: add.assoc)
qed

lemma minted_makeRef_calls:
  "minted (replicate n Call_makeRef) s = map (\<lambda>k. ref s + of_nat k) [0..<n]"
proof -
  have "length (minted (replicate n Call_makeRef) s) = n"
    by (induction n arbitrary: s) (simp_all add: step_def calls_makeRef_def)
  with minted_shape [of "replicate n Call_makeRef" s] show ?thesis by simp
qed

lemma sint_of_nat_small:
  "k < 2 ^ 63 \<Longrightarrow> sint (of_nat k :: int64) = int k"
proof -
  assume k: "k < 2 ^ 63"
  have "sint (of_nat k :: int64) = signed_take_bit 63 (int k)"
    by (simp add: signed_of_nat)
  also have "\<dots> = int k"
  proof (rule signed_take_bit_int_eq_self)
    show "- (2 ^ 63) \<le> int k" by simp
    from k have "int k < int (2 ^ 63)" by (simp only: of_nat_less_iff)
    then show "int k < 2 ^ 63" by simp
  qed
  finally show ?thesis .
qed

lemma run_makeRef_calls:
  "run (replicate n Call_makeRef) s = Inr (s \<lparr> ref := ref s + of_nat n \<rparr>)"
proof (induction n arbitrary: s)
  case 0
  then show ?case by simp
next
  case (Suc n)
  have "run (replicate (Suc n) Call_makeRef) s = run (replicate n Call_makeRef) (s \<lparr> ref := ref s + 1 \<rparr>)"
    by (simp add: step_def makeRef_def)
  also have "\<dots> = Inr (s \<lparr> ref := ref s + of_nat (Suc n) \<rparr>)"
    by (simp add: Suc.IH add.assoc)
  finally show ?case .
qed

text \<open>
  Claim C3, as the code has it. In any run from a fresh controller, whatever calls,
  transport reports, worker and thread moves it interleaves, the values that the calls
  of \<^verbatim>\<open>makeRef()\<close> return are, in order, 0, 1, 2, ... \<open>N - 1\<close>, strictly increasing and
  pairwise distinct, as long as there are at most \<open>2 ^ 63\<close> of them; and as long as
  there are fewer than \<open>2 ^ 63\<close>, the counter, read as the signed number it is, then
  holds \<open>N\<close>.
\<close>

theorem makeRef_counts_up:
  assumes "fresh s0" and "length (minted acts s0) \<le> 2 ^ 63"
  shows "map sint (minted acts s0) = map int [0..<length (minted acts s0)]
       \<and> sorted_wrt (<) (map sint (minted acts s0))
       \<and> distinct (minted acts s0)
       \<and> (\<forall>s'. run acts s0 = Inr s' \<and> length (minted acts s0) < 2 ^ 63 \<longrightarrow>
             sint (ref s') = int (length (minted acts s0)))
       \<and> fst (makeRef s) = ref s \<and> ref (snd (makeRef s)) = ref s + 1"
proof -
  let ?n = "length (minted acts s0)"
  have r0: "ref s0 = 0" using assms(1) by (rule fresh_fields)
  have shape: "minted acts s0 = map of_nat [0..<?n]"
    using minted_shape [of acts s0] r0 by simp
  have "map sint (minted acts s0) = map (\<lambda>k. sint (of_nat k :: int64)) [0..<?n]"
    by (subst shape) (simp add: comp_def)
  also have "\<dots> = map int [0..<?n]"
  proof (rule map_cong [OF refl])
    fix k assume "k \<in> set [0..<?n]"
    with assms(2) have "k < 2 ^ 63" by simp
    then show "sint (of_nat k :: int64) = int k" by (rule sint_of_nat_small)
  qed
  finally have vals: "map sint (minted acts s0) = map int [0..<?n]" .
  have srt: "sorted_wrt (<) (map sint (minted acts s0))"
    unfolding vals by (simp add: sorted_wrt_map sorted_wrt_upt del: upt_Suc)
  have "distinct (map sint (minted acts s0))"
    unfolding vals by (simp add: distinct_map inj_on_def del: upt_Suc)
  then have dst: "distinct (minted acts s0)"
    by (simp add: distinct_map)
  have fin: "\<forall>s'. run acts s0 = Inr s' \<and> ?n < 2 ^ 63 \<longrightarrow> sint (ref s') = int ?n"
  proof (intro allI impI)
    fix s' assume a: "run acts s0 = Inr s' \<and> ?n < 2 ^ 63"
    then have "ref s' = of_nat ?n"
      using run_ref [of acts s0 s'] r0 by simp
    with a show "sint (ref s') = int ?n"
      by (simp add: sint_of_nat_small)
  qed
  from vals srt dst fin show ?thesis
    by (simp add: makeRef_def)
qed

theorem makeRef_counts_up_witness:
  "fresh (PhxSocket ''ws://h'' 1)
   \<and> map sint (minted [Call_makeRef, Call_connect [], WebSocketDidOpen, Worker, Worker, Worker,
       Thread 0, Worker, Thread 0, Worker, Call_makeRef, Call_disconnect,
       WebSocketDidClose 1000 ''bye'' True, Call_makeRef] (PhxSocket ''ws://h'' 1)) = [0, 1, 2, 3]
   \<and> map_sum id ref (run [Call_makeRef, Call_connect [], WebSocketDidOpen, Worker, Worker, Worker,
       Thread 0, Worker, Thread 0, Worker, Call_makeRef, Call_disconnect,
       WebSocketDidClose 1000 ''bye'' True, Call_makeRef] (PhxSocket ''ws://h'' 1)) = Inr 4"
  using makeRef_counts_up [of "PhxSocket ''ws://h'' 1"
      "[Call_makeRef, Call_connect [], WebSocketDidOpen, Worker, Worker, Worker,
       Thread 0, Worker, Thread 0, Worker, Call_makeRef, Call_disconnect,
       WebSocketDidClose 1000 ''bye'' True, Call_makeRef]"]
    fresh_ctor(1) [of "''ws://h''" 1]
  by (simp add: calls_makeRef_def call_defs machine_defs ctor_defs Let_def)

text \<open>
  Where claim C3 fails as stated: calls of \<^verbatim>\<open>makeRef()\<close> on a fresh controller. Call
  number \<open>2 ^ 63\<close> returns \<open>2 ^ 63 - 1\<close> and leaves the counter at \<open>- 2 ^ 63\<close>, which the
  next call returns.
\<close>

theorem makeRef_wraps_around:
  "sint (minted (replicate 9223372036854775809 Call_makeRef) (PhxSocket ''ws://h'' 1)
           ! 9223372036854775807) = 9223372036854775807
   \<and> sint (minted (replicate 9223372036854775809 Call_makeRef) (PhxSocket ''ws://h'' 1)
           ! 9223372036854775808) = - 9223372036854775808
   \<and> sint (ref (projr (run (replicate 9223372036854775808 Call_makeRef) (PhxSocket ''ws://h'' 1))))
       = - 9223372036854775808"
proof -
  have r0: "ref (PhxSocket ''ws://h'' 1) = 0" by (simp add: ctor_defs)
  have nth: "k < n \<Longrightarrow> minted (replicate n Call_makeRef) (PhxSocket ''ws://h'' 1) ! k = of_nat k" for k n
    by (simp add: minted_makeRef_calls r0 del: upt_Suc)
  have a: "minted (replicate 9223372036854775809 Call_makeRef) (PhxSocket ''ws://h'' 1)
             ! 9223372036854775807 = of_nat 9223372036854775807"
    by (rule nth) simp
  have b: "minted (replicate 9223372036854775809 Call_makeRef) (PhxSocket ''ws://h'' 1)
             ! 9223372036854775808 = of_nat 9223372036854775808"
    by (rule nth) simp
  have c: "ref (projr (run (replicate n Call_makeRef) (PhxSocket ''ws://h'' 1))) = of_nat n" for n
    by (simp add: run_makeRef_calls r0)
  show ?thesis
    unfolding a b c by simp
qed

subsection \<open>The heartbeats of a run\<close>

lemma of_nat_64_inj:
  "i < 2 ^ 64 \<Longrightarrow> j < 2 ^ 64 \<Longrightarrow> (of_nat i :: int64) = of_nat j \<Longrightarrow> i = j"
proof -
  assume a: "i < 2 ^ 64" "j < 2 ^ 64" "(of_nat i :: int64) = of_nat j"
  then have "unat (of_nat i :: int64) = unat (of_nat j :: int64)" by simp
  then have "i mod 2 ^ 64 = j mod 2 ^ 64" by (simp add: unat_of_nat)
  with a(1,2) show "i = j" by simp
qed

lemma sends_heartbeat_step:
  assumes "sends_heartbeat a s" and "step a s = Inr s'"
  shows "calls_makeRef a s
       \<and> concat (map sent (drop (length (trace s)) (trace s'))) = [heartbeat (ref s)]"
proof -
  from assms(1) obtain ts where a: "a = Worker" and p: "pool s = SendHeartbeat # ts"
    by (auto simp add: sends_heartbeat_def split: action.splits list.splits task.splits)
  from assms(2) a p have "sendHeartbeat (s \<lparr> pool := ts \<rparr>) = Inr s'"
    by (simp add: step_def run_task_def)
  then have "\<exists>sk. trace s' = trace s @ [Ws sk (Send_dump (heartbeat (ref s)))]"
    by (auto simp add: sendHeartbeat_result split: option.splits)
  with a p show ?thesis
    by (auto simp add: calls_makeRef_def)
qed

lemma beats_shape:
  "\<exists>ks. beats acts s = map (\<lambda>k. heartbeat (ref s + of_nat k)) ks
        \<and> sorted_wrt (<) ks \<and> (\<forall>k\<in>set ks. k < length (minted acts s))"
proof (induction acts arbitrary: s)
  case Nil
  show ?case by (rule exI [of _ "[]"]) simp
next
  case (Cons a acts)
  show ?case
  proof (cases "step a s")
    case (Inl e)
    then show ?thesis by (intro exI [of _ "[]"]) simp
  next
    case (Inr s1)
    from Cons.IH [of s1] obtain ks where
      ks: "beats acts s1 = map (\<lambda>k. heartbeat (ref s1 + of_nat k)) ks"
        "sorted_wrt (<) ks" "\<forall>k\<in>set ks. k < length (minted acts s1)"
      by blast
    from step_fields [OF Inr]
    have r1: "ref s1 = (if calls_makeRef a s then ref s + 1 else ref s)" by simp
    show ?thesis
    proof (cases "calls_makeRef a s")
      case False
      then have nb: "\<not> sends_heartbeat a s"
        using sends_heartbeat_step [OF _ Inr] by blast
      from False nb Inr r1 ks show ?thesis
        by (intro exI [of _ ks]) simp
    next
      case True
      have shift: "(\<lambda>k. heartbeat (ref s1 + of_nat k)) = (\<lambda>k. heartbeat (ref s + of_nat (Suc k)))"
        using r1 True by (auto simp add: add.assoc)
      have tail: "beats acts s1 = map (\<lambda>k. heartbeat (ref s + of_nat k)) (map Suc ks)"
        using ks(1) shift by (simp add: comp_def)
      have srt: "sorted_wrt (<) (map Suc ks)"
        using ks(2) by (simp add: sorted_wrt_map)
      have len: "length (minted (a # acts) s) = Suc (length (minted acts s1))"
        using True Inr by simp
      show ?thesis
      proof (cases "sends_heartbeat a s")
        case False
        with Inr tail srt len ks(3) show ?thesis
          by (intro exI [of _ "map Suc ks"]) auto
      next
        case sh: True
        from sends_heartbeat_step [OF sh Inr]
        have hd: "concat (map sent (drop (length (trace s)) (trace s1))) = [heartbeat (ref s)]"
          by simp
        from sh Inr hd tail srt len ks(3) show ?thesis
          by (intro exI [of _ "0 # map Suc ks"]) auto
      qed
    qed
  qed
qed

lemma beats_distinct:
  assumes "length (minted acts s) \<le> 2 ^ 64"
  shows "distinct (map ref_field (beats acts s)) \<and> distinct (beats acts s)"
proof -
  from beats_shape [of acts s] obtain ks where
    ks: "beats acts s = map (\<lambda>k. heartbeat (ref s + of_nat k)) ks"
      "sorted_wrt (<) ks" "\<forall>k\<in>set ks. k < length (minted acts s)"
    by blast
  have d: "distinct ks"
    using ks(2) by (simp add: strict_sorted_iff)
  have "inj_on (\<lambda>k. ref_field (heartbeat (ref s + of_nat k))) (set ks)"
  proof (rule inj_onI)
    fix i j
    assume i: "i \<in> set ks" and j: "j \<in> set ks"
      and eq: "ref_field (heartbeat (ref s + of_nat i)) = ref_field (heartbeat (ref s + of_nat j))"
    from eq have "(of_nat i :: int64) = of_nat j" by (simp add: heartbeat_def)
    moreover from i j ks(3) assms have "i < 2 ^ 64" "j < 2 ^ 64" by fastforce+
    ultimately show "i = j" by (rule of_nat_64_inj [rotated 2])
  qed
  with d ks(1) have refs: "distinct (map ref_field (beats acts s))"
    by (simp add: distinct_map comp_def)
  then have "distinct (beats acts s)"
    by (simp add: distinct_map)
  with refs show ?thesis by simp
qed

lemma beats_append:
  "run xs s = Inr s' \<Longrightarrow> beats (xs @ ys) s = beats xs s @ beats ys s'"
proof (induction xs arbitrary: s)
  case Nil
  then show ?case by simp
next
  case (Cons a xs)
  then obtain s1 where s1: "step a s = Inr s1" and rest: "run xs s1 = Inr s'"
    by (auto split: sum.splits)
  from Cons.IH [OF rest] s1 show ?case by simp
qed

lemma heartbeat_round:
  assumes "socket s = Some sk" and "canSendHeartbeat s" and "pool s = []"
    and "threads s = [HbSleep]"
  shows "run [Thread 0, Worker] s =
           Inr (s \<lparr> ref := ref s + 1,
                    trace := trace s @ [Ws sk (Send_dump (heartbeat (ref s)))] \<rparr>)"
    and "beats [Thread 0, Worker] s = [heartbeat (ref s)]"
  using assms
  by (simp_all add: step_def thread_step_def run_task_def enqueue_def sendHeartbeat_result
      sends_heartbeat_def)

lemma heartbeat_rounds:
  assumes "socket s = Some sk" and "canSendHeartbeat s" and "pool s = []"
    and "threads s = [HbSleep]"
  shows "beats (concat (replicate n [Thread 0, Worker])) s =
           map (\<lambda>k. heartbeat (ref s + of_nat k)) [0..<n]"
  using assms
proof (induction n arbitrary: s)
  case 0
  then show ?case by simp
next
  case (Suc n)
  let ?s1 = "s \<lparr> ref := ref s + 1, trace := trace s @ [Ws sk (Send_dump (heartbeat (ref s)))] \<rparr>"
  have r: "run [Thread 0, Worker] s = Inr ?s1" and b: "beats [Thread 0, Worker] s = [heartbeat (ref s)]"
    using heartbeat_round [OF Suc.prems] by simp_all
  have ih: "beats (concat (replicate n [Thread 0, Worker])) ?s1 =
              map (\<lambda>k. heartbeat (ref ?s1 + of_nat k)) [0..<n]"
    using Suc.prems by (intro Suc.IH) simp_all
  have e: "concat (replicate (Suc n) [Thread 0, Worker]) =
             [Thread 0, Worker] @ concat (replicate n [Thread 0, Worker])"
    by simp
  have m: "map (\<lambda>k. heartbeat (ref ?s1 + of_nat k)) [0..<n] =
           map (\<lambda>k. heartbeat (ref s + of_nat (Suc k))) [0..<n]"
    by (simp add: add.assoc)
  have "beats (concat (replicate (Suc n) [Thread 0, Worker])) s =
          [heartbeat (ref s)] @ beats (concat (replicate n [Thread 0, Worker])) ?s1"
    by (simp only: e beats_append [OF r] b)
  also have "\<dots> = heartbeat (ref s) # map (\<lambda>k. heartbeat (ref s + of_nat (Suc k))) [0..<n]"
    by (simp only: ih m append.simps)
  also have "\<dots> = map (\<lambda>k. heartbeat (ref s + of_nat k)) [0..<Suc n]"
    by (simp add: upt_conv_Cons map_Suc_upt [symmetric] del: upt_Suc)
  finally show ?case .
qed

text \<open>
  Claim C7, as the code has it. \<^verbatim>\<open>sendHeartbeat\<close> makes one call on the transport:
  \<^verbatim>\<open>send\<close> of the dump of the object with topic "phoenix", event "heartbeat", payload the
  empty object and ref the value that \<^verbatim>\<open>makeRef()\<close> returns at that moment, which is never
  the value it returned the time before; without a transport it fails. In any run, from
  any state and whatever it interleaves, every object that a heartbeat task sends has
  that shape, and the refs of the objects sent are pairwise distinct as long as the run
  calls \<^verbatim>\<open>makeRef()\<close> at most \<open>2 ^ 64\<close> times.
\<close>

theorem sendHeartbeat_envelope:
  "sendHeartbeat s =
     (case socket s of
        None \<Rightarrow> Inl NullSocket
      | Some sk \<Rightarrow>
          Inr (s \<lparr> ref := ref s + 1,
                   trace := trace s @
                     [Ws sk (Send_dump (JObject
                        [(''topic'', JString ''phoenix''), (''event'', JString ''heartbeat''),
                         (''payload'', JObject []), (''ref'', JInt (fst (makeRef s)))]))] \<rparr>))
   \<and> fst (makeRef (snd (makeRef s))) \<noteq> fst (makeRef s)
   \<and> (\<forall>j\<in>set (beats acts s).
         \<exists>r. j = JObject [(''topic'', JString ''phoenix''), (''event'', JString ''heartbeat''),
                          (''payload'', JObject []), (''ref'', JInt r)])
   \<and> (length (minted acts s) \<le> 2 ^ 64 \<longrightarrow>
         distinct (map ref_field (beats acts s)) \<and> distinct (beats acts s))"
proof -
  have one: "sendHeartbeat s =
     (case socket s of
        None \<Rightarrow> Inl NullSocket
      | Some sk \<Rightarrow>
          Inr (s \<lparr> ref := ref s + 1,
                   trace := trace s @
                     [Ws sk (Send_dump (JObject
                        [(''topic'', JString ''phoenix''), (''event'', JString ''heartbeat''),
                         (''payload'', JObject []), (''ref'', JInt (fst (makeRef s)))]))] \<rparr>))"
    by (simp add: sendHeartbeat_result heartbeat_def empty_braces_def makeRef_def split: option.split)
  have next_differs: "fst (makeRef (snd (makeRef s))) \<noteq> fst (makeRef s)"
    by (simp add: makeRef_def)
  have shape: "\<forall>j\<in>set (beats acts s).
         \<exists>r. j = JObject [(''topic'', JString ''phoenix''), (''event'', JString ''heartbeat''),
                          (''payload'', JObject []), (''ref'', JInt r)]"
  proof -
    from beats_shape [of acts s] obtain ks where
      "beats acts s = map (\<lambda>k. heartbeat (ref s + of_nat k)) ks"
      by blast
    then show ?thesis
      by (auto simp add: heartbeat_def empty_braces_def)
  qed
  have dist: "length (minted acts s) \<le> 2 ^ 64 \<longrightarrow>
      distinct (map ref_field (beats acts s)) \<and> distinct (beats acts s)"
    using beats_distinct [of acts s] by blast
  from one next_differs shape dist show ?thesis by blast
qed

theorem sendHeartbeat_envelope_witness:
  "beats [Call_connect [], Worker, WebSocketDidOpen, Worker, Worker, Thread 0, Worker,
          Thread 0, Worker, Call_makeRef, Thread 0, Worker] (PhxSocket ''ws://h'' 1)
     = [JObject [(''topic'', JString ''phoenix''), (''event'', JString ''heartbeat''),
                 (''payload'', JObject []), (''ref'', JInt 0)],
        JObject [(''topic'', JString ''phoenix''), (''event'', JString ''heartbeat''),
                 (''payload'', JObject []), (''ref'', JInt 2)]]
   \<and> length (minted [Call_connect [], Worker, WebSocketDidOpen, Worker, Worker, Thread 0, Worker,
          Thread 0, Worker, Call_makeRef, Thread 0, Worker] (PhxSocket ''ws://h'' 1)) = 3
   \<and> distinct (map ref_field (beats [Call_connect [], Worker, WebSocketDidOpen, Worker, Worker,
          Thread 0, Worker, Thread 0, Worker, Call_makeRef, Thread 0, Worker] (PhxSocket ''ws://h'' 1)))"
  using sendHeartbeat_envelope [of "PhxSocket ''ws://h'' 1"
      "[Call_connect [], Worker, WebSocketDidOpen, Worker, Worker, Thread 0, Worker,
          Thread 0, Worker, Call_makeRef, Thread 0, Worker]"]
  by (simp add: sends_heartbeat_def calls_makeRef_def call_defs machine_defs ctor_defs Let_def)

text \<open>
  Where claim C7 fails as stated: a fresh controller connects, its transport opens, the
  heartbeat loop starts, and the loop and the worker take \<open>2 ^ 64 + 1\<close> turns. The last
  heartbeat carries the ref of the first.
\<close>

theorem heartbeat_ref_comes_back:
  "beats ([Call_connect [], Worker, WebSocketDidOpen, Worker, Worker, Thread 0, Worker]
          @ concat (replicate 18446744073709551617 [Thread 0, Worker])) (PhxSocket ''ws://h'' 1)
        ! 0
     = JObject [(''topic'', JString ''phoenix''), (''event'', JString ''heartbeat''),
                (''payload'', JObject []), (''ref'', JInt 0)]
   \<and> beats ([Call_connect [], Worker, WebSocketDidOpen, Worker, Worker, Thread 0, Worker]
          @ concat (replicate 18446744073709551617 [Thread 0, Worker])) (PhxSocket ''ws://h'' 1)
        ! 18446744073709551616
     = JObject [(''topic'', JString ''phoenix''), (''event'', JString ''heartbeat''),
                (''payload'', JObject []), (''ref'', JInt 0)]"
proof -
  let ?pre = "[Call_connect [], Worker, WebSocketDidOpen, Worker, Worker, Thread 0, Worker]"
  let ?P = "PhxSocket ''ws://h'' 1"
  let ?S = "projr (run ?pre ?P)"
  have pre: "run ?pre ?P = Inr ?S"
    by (simp add: call_defs machine_defs ctor_defs Let_def)
  have S: "socket ?S = Some (EasySocket ''ws://h'')" "canSendHeartbeat ?S" "pool ?S = []"
    "threads ?S = [HbSleep]" "ref ?S = 0"
    by (simp_all add: call_defs machine_defs ctor_defs Let_def)
  have none: "beats ?pre ?P = []"
    by (simp add: sends_heartbeat_def call_defs machine_defs ctor_defs Let_def)
  have all: "beats (?pre @ concat (replicate n [Thread 0, Worker])) ?P =
               map (\<lambda>k. heartbeat (of_nat k)) [0..<n]" for n
  proof -
    have "beats (?pre @ concat (replicate n [Thread 0, Worker])) ?P =
            beats ?pre ?P @ beats (concat (replicate n [Thread 0, Worker])) ?S"
      by (rule beats_append [OF pre])
    also have "\<dots> = map (\<lambda>k. heartbeat (of_nat k)) [0..<n]"
      using heartbeat_rounds [OF S(1-4), of n]
      by (simp only: none S(5) append_Nil add_0)
    finally show ?thesis .
  qed
  have nth: "k < n \<Longrightarrow>
      beats (?pre @ concat (replicate n [Thread 0, Worker])) ?P ! k = heartbeat (of_nat k)" for k n
    by (simp only: all) simp
  have a: "beats (?pre @ concat (replicate 18446744073709551617 [Thread 0, Worker])) ?P ! 0
             = heartbeat (of_nat 0)"
    by (rule nth) simp
  have b: "beats (?pre @ concat (replicate 18446744073709551617 [Thread 0, Worker])) ?P
             ! 18446744073709551616 = heartbeat (of_nat 18446744073709551616)"
    by (rule nth) simp
  show ?thesis
    unfolding a b by (simp add: heartbeat_def empty_braces_def)
qed



text \<open>
  Claim C2 at a run where the code departs from it. The transport reports "opened" and
  the caller calls \<^verbatim>\<open>disconnect()\<close> before the worker has taken the report. The worker
  then processes the report, which starts the heartbeat thread, and the two tasks of
  \<^verbatim>\<open>disconnect()\<close>: both flags are false and the transport is gone. The heartbeat thread
  now makes its first move, "set canSendHeartbeat to true", which the worker runs; at
  its next wake-up the thread finds the flag true and submits a heartbeat; the worker
  runs \<^verbatim>\<open>sendHeartbeat\<close> on the null transport.
\<close>

theorem heartbeat_loop_outlives_disconnect:
  "map_sum id canSendHeartbeat
     (run [Call_connect [], Worker, WebSocketDidOpen, Call_disconnect, Worker, Worker, Worker]
        (PhxSocket ''ws://h'' 1)) = Inr False
   \<and> map_sum id canReconnect
     (run [Call_connect [], Worker, WebSocketDidOpen, Call_disconnect, Worker, Worker, Worker]
        (PhxSocket ''ws://h'' 1)) = Inr False
   \<and> map_sum id threads
     (run [Call_connect [], Worker, WebSocketDidOpen, Call_disconnect, Worker, Worker, Worker]
        (PhxSocket ''ws://h'' 1)) = Inr [HbInit]
   \<and> map_sum id canSendHeartbeat
     (run [Call_connect [], Worker, WebSocketDidOpen, Call_disconnect, Worker, Worker, Worker,
           Worker, Thread 0, Worker, Thread 0] (PhxSocket ''ws://h'' 1)) = Inr True
   \<and> map_sum id pool
     (run [Call_connect [], Worker, WebSocketDidOpen, Call_disconnect, Worker, Worker, Worker,
           Worker, Thread 0, Worker, Thread 0] (PhxSocket ''ws://h'' 1)) = Inr [SendHeartbeat]
   \<and> map_sum id socket
     (run [Call_connect [], Worker, WebSocketDidOpen, Call_disconnect, Worker, Worker, Worker,
           Worker, Thread 0, Worker, Thread 0] (PhxSocket ''ws://h'' 1)) = Inr None
   \<and> run [Call_connect [], Worker, WebSocketDidOpen, Call_disconnect, Worker, Worker, Worker,
           Worker, Thread 0, Worker, Thread 0, Worker] (PhxSocket ''ws://h'' 1) = Inl NullSocket"
  by (simp add: call_defs machine_defs ctor_defs Let_def)

end
